theory Spec2Isabelle
  imports Main "HOL-Library.Word"
begin

unbundle bit_operations_syntax

section \<open>Machine integers and faults\<close>

text \<open>
  The C sources compute with 32-bit \<open>int\<close>, \<open>uint8_t\<close>, \<open>uint16_t\<close> and \<open>uint32_t\<close>.
  The unsigned types are words.  A C \<open>int\<close> is an \<open>int\<close> in the range \<open>c_int\<close>, and every
  \<open>int\<close> addition, subtraction and multiplication of the source is followed by
  \<open>wrap32\<close>: the two's-complement wrap-around of the target.  (The C standard leaves signed
  overflow undefined; the model follows what the 32-bit target computes.)
\<close>

type_synonym u8 = "8 word"
type_synonym u16 = "16 word"
type_synonym u32 = "32 word"

definition c_int :: "int \<Rightarrow> bool" where
  "c_int v \<longleftrightarrow> - 2147483648 \<le> v \<and> v \<le> 2147483647"

definition wrap32 :: "int \<Rightarrow> int" where
  "wrap32 v = (v + 2147483648) mod 4294967296 - 2147483648"

text \<open>C division truncates towards zero.\<close>

definition c_div :: "int \<Rightarrow> int \<Rightarrow> int" where
  "c_div a b = sgn a * sgn b * (\<bar>a\<bar> div \<bar>b\<bar>)"

text \<open>
  An access outside the object a pointer refers to, and a division by zero, have no defined
  result in C: they are faults of the model.
\<close>

datatype fault = OutOfBounds | DivByZero

text \<open>\<open>for (int i = lo; i < hi; i++) body\<close>, without and with faults.\<close>

function for_loop :: "int \<Rightarrow> int \<Rightarrow> (int \<Rightarrow> 'a \<Rightarrow> 'a) \<Rightarrow> 'a \<Rightarrow> 'a" where
  "for_loop i n body s = (if i < n then for_loop (i + 1) n body (body i s) else s)"
  by pat_completeness auto
termination
  by (relation "measure (\<lambda>(i, n, body, s). nat (n - i))") auto

declare for_loop.simps [simp del]

function for_loop_f ::
  "int \<Rightarrow> int \<Rightarrow> (int \<Rightarrow> 'a \<Rightarrow> fault + 'a) \<Rightarrow> 'a \<Rightarrow> fault + 'a" where
  "for_loop_f i n body s =
     (if i < n then
        (case body i s of Inl e \<Rightarrow> Inl e | Inr s' \<Rightarrow> for_loop_f (i + 1) n body s')
      else Inr s)"
  by pat_completeness auto
termination
  by (relation "measure (\<lambda>(i, n, body, s). nat (n - i))") auto

declare for_loop_f.simps [simp del]

section \<open>Constants of rgb\_display.c and rgb\_display.h\<close>

definition SCREEN_WIDTH :: int where "SCREEN_WIDTH = 1024"
definition SCREEN_HEIGHT :: int where "SCREEN_HEIGHT = 600"

definition GFX_VGA_WIDTH :: int where "GFX_VGA_WIDTH = 320"
definition GFX_VGA_HEIGHT :: int where "GFX_VGA_HEIGHT = 200"
definition GFX_VGA_SIZE :: int where "GFX_VGA_SIZE = GFX_VGA_WIDTH * GFX_VGA_HEIGHT"
definition GFX_VGA_SCALE :: int where "GFX_VGA_SCALE = 3"
definition GFX_VGA_MARGIN_X :: int where "GFX_VGA_MARGIN_X = 32"

definition GFX_150P_WIDTH :: int where "GFX_150P_WIDTH = 256"
definition GFX_150P_HEIGHT :: int where "GFX_150P_HEIGHT = 150"
definition GFX_150P_SIZE :: int where "GFX_150P_SIZE = GFX_150P_WIDTH * GFX_150P_HEIGHT"
definition GFX_150P_SCALE :: int where "GFX_150P_SCALE = 4"

text \<open>\<open>screen_mode_t\<close> is a C enum: any \<open>int\<close> can be passed where one is expected.\<close>

definition SM_TEXT :: int where "SM_TEXT = 3"
definition SM_VGA13H :: int where "SM_VGA13H = 0x13"
definition SM_150P :: int where "SM_150P = 0x80"

definition LCD_ATTR_FG :: "int \<Rightarrow> int" where
  "LCD_ATTR_FG attr = attr AND 0x0F"

definition LCD_ATTR_BG :: "int \<Rightarrow> int" where
  "LCD_ATTR_BG attr = (drop_bit 4 attr) AND 0x0F"

definition s_cga_colors :: "u16 list" where
  "s_cga_colors =
     [0x0000, 0x0015, 0x0540, 0x0555, 0xA800, 0xA815, 0xA520, 0xAD55,
      0x52AA, 0x52BF, 0x57EA, 0x57FF, 0xFAAA, 0xFABF, 0xFFE0, 0xFFFF]"

section \<open>Module state\<close>

text \<open>
  The collaborator's hook table \<open>rgb_display_callbacks_t\<close>.  A field is \<open>None\<close> when the
  function pointer is NULL, and otherwise holds what the hook returns when it is called: the
  16 palette entries behind the returned pointer, the status of \<open>enter_graphics\<close> and
  \<open>exit_graphics\<close>, the (possibly NULL) text buffer.  A hook that answers differently on a later
  call is a later table.  Hooks are taken not to call back into the module.
\<close>

record rgb_display_callbacks =
  get_text_palette :: "u16 list option"
  enter_graphics :: "int option"
  exit_graphics :: "int option"
  get_text_buffer :: "nat option option"
  flush_input :: "unit option"

text \<open>
  The file-scope variables of rgb\_display.c.  Pointers are options: the text buffer is the
  address the caller handed over, the graphics framebuffer is the byte array it points to.
  The two 256-entry tables are indexed by a byte, so they are total functions on \<open>u8\<close>.
  The panel handle, the vsync semaphore and the glyph tables are not part of this model.
\<close>

record display_state =
  s_gfx_width :: int
  s_gfx_height :: int
  s_gfx_scale :: int
  s_gfx_margin_x :: int
  s_display_buffer :: "nat option"
  s_screen_mode :: int
  s_graphics_framebuffer :: "u8 list option"
  s_cursor_col :: int
  s_cursor_row :: int
  s_frame_count :: u32
  ATTR_LUT :: "u8 \<Rightarrow> u32 \<times> u32"
  s_vga_palette :: "u8 \<Rightarrow> u16"
  s_callbacks :: "rgb_display_callbacks option"

text \<open>The state the static initialisers give, before any call.\<close>

definition static_state :: display_state where
  "static_state =
     \<lparr> s_gfx_width = 0, s_gfx_height = 0, s_gfx_scale = 0, s_gfx_margin_x = 0,
       s_display_buffer = None, s_screen_mode = SM_TEXT, s_graphics_framebuffer = None,
       s_cursor_col = - 1, s_cursor_row = - 1, s_frame_count = 0,
       ATTR_LUT = (\<lambda>_. (0, 0)), s_vga_palette = (\<lambda>_. 0), s_callbacks = None \<rparr>"

text \<open>
  What \<open>heap_caps_malloc\<close> answers: whether internal RAM can serve the request, and, when
  the firmware is built with \<open>CONFIG_SPIRAM\<close>, whether the PSRAM fallback can.
\<close>

record heap_caps =
  internal_ok :: bool
  spiram_ok :: "bool option"

section \<open>Indexed palette\<close>

definition cube_rgb565 :: "int \<Rightarrow> int \<Rightarrow> int \<Rightarrow> u16" where
  "cube_rgb565 r g b =
     (let r5 = (word_of_int (c_div (r * 51 * 31) 255) :: u16);
          g6 = (word_of_int (c_div (g * 51 * 63) 255) :: u16);
          b5 = (word_of_int (c_div (b * 51 * 31) 255) :: u16)
      in push_bit 11 r5 OR push_bit 5 g6 OR b5)"

definition gray_rgb565 :: "int \<Rightarrow> u16" where
  "gray_rgb565 i =
     (let gray = 8 + i * 10;
          g5 = (word_of_int (c_div (gray * 31) 255) :: u16);
          g6 = (word_of_int (c_div (gray * 63) 255) :: u16)
      in push_bit 11 g5 OR push_bit 5 g6 OR g5)"

definition init_vga_palette :: "(u8 \<Rightarrow> u16) \<Rightarrow> (u8 \<Rightarrow> u16)" where
  "init_vga_palette pal0 =
     (let pal1 = (\<lambda>i. if unat i < 16 then s_cga_colors ! unat i else pal0 i);
          cube = for_loop 0 6 (\<lambda>r. for_loop 0 6 (\<lambda>g. for_loop 0 6 (\<lambda>b (pal, idx).
                   (pal(word_of_int idx := cube_rgb565 r g b), idx + 1)))) (pal1, 16)
      in for_loop 0 24 (\<lambda>i pal. pal(word_of_int (232 + i) := gray_rgb565 i)) (fst cube))"

definition rgb_display_set_vga_palette :: "display_state \<Rightarrow> (u8 \<Rightarrow> u16) \<Rightarrow> display_state" where
  "rgb_display_set_vga_palette s palette = s\<lparr>s_vga_palette := palette\<rparr>"

definition rgb_display_set_vga_palette_entry :: "display_state \<Rightarrow> int \<Rightarrow> u16 \<Rightarrow> display_state" where
  "rgb_display_set_vga_palette_entry s index rgb565 =
     (if index \<ge> 0 \<and> index < 256
      then s\<lparr>s_vga_palette := (s_vga_palette s)(word_of_int index := rgb565)\<rparr>
      else s)"

definition rgb_display_get_vga_palette_entry :: "display_state \<Rightarrow> int \<Rightarrow> u16" where
  "rgb_display_get_vga_palette_entry s index =
     (if index \<ge> 0 \<and> index < 256 then s_vga_palette s (word_of_int index) else 0)"

section \<open>Attribute lookup table\<close>

definition text_palette :: "display_state \<Rightarrow> u16 list" where
  "text_palette s =
     (case s_callbacks s of
        None \<Rightarrow> s_cga_colors
      | Some cb \<Rightarrow> (case get_text_palette cb of None \<Rightarrow> s_cga_colors | Some p \<Rightarrow> p))"

definition attr_entry :: "u16 list \<Rightarrow> int \<Rightarrow> u32 \<times> u32" where
  "attr_entry palette attr =
     (let fg_idx = LCD_ATTR_FG attr;
          bg_idx = LCD_ATTR_BG attr;
          fg_color = palette ! nat fg_idx;
          bg_color = palette ! nat bg_idx;
          bg32 = (push_bit 16 (ucast bg_color) OR ucast bg_color :: u32);
          fg32 = (push_bit 16 (ucast fg_color) OR ucast fg_color :: u32)
      in (bg32, fg32 XOR bg32))"

definition rebuild_attr_lut :: "display_state \<Rightarrow> display_state" where
  "rebuild_attr_lut s =
     (let palette = text_palette s
      in s\<lparr>ATTR_LUT :=
            for_loop 0 256 (\<lambda>attr lut. lut(word_of_int attr := attr_entry palette attr))
              (ATTR_LUT s)\<rparr>)"

definition rgb_display_refresh_palette :: "display_state \<Rightarrow> display_state" where
  "rgb_display_refresh_palette s = rebuild_attr_lut s"

section \<open>Framebuffer manager and mode state machine\<close>

definition heap_caps_malloc_fb :: "heap_caps \<Rightarrow> bool" where
  "heap_caps_malloc_fb hp \<longleftrightarrow>
     internal_ok hp \<or> (case spiram_ok hp of None \<Rightarrow> False | Some ok \<Rightarrow> ok)"

definition alloc_sized :: "heap_caps \<Rightarrow> int \<Rightarrow> display_state \<Rightarrow> int \<times> display_state" where
  "alloc_sized hp fb_size s =
     (if heap_caps_malloc_fb hp
      then (0, s\<lparr>s_graphics_framebuffer := Some (replicate (nat fb_size) 0)\<rparr>)
      else (- 1, s))"

definition allocate_graphics_framebuffer ::
  "heap_caps \<Rightarrow> display_state \<Rightarrow> int \<Rightarrow> int \<times> display_state" where
  "allocate_graphics_framebuffer hp s mode =
     (if s_graphics_framebuffer s \<noteq> None then (0, s)
      else if mode = SM_VGA13H then
        alloc_sized hp GFX_VGA_SIZE
          (s\<lparr>s_gfx_width := GFX_VGA_WIDTH, s_gfx_height := GFX_VGA_HEIGHT,
             s_gfx_scale := GFX_VGA_SCALE, s_gfx_margin_x := GFX_VGA_MARGIN_X\<rparr>)
      else if mode = SM_150P then
        alloc_sized hp GFX_150P_SIZE
          (s\<lparr>s_gfx_width := GFX_150P_WIDTH, s_gfx_height := GFX_150P_HEIGHT,
             s_gfx_scale := GFX_150P_SCALE, s_gfx_margin_x := 0\<rparr>)
      else (- 1, s))"

definition free_graphics_framebuffer :: "display_state \<Rightarrow> display_state" where
  "free_graphics_framebuffer s =
     (if s_graphics_framebuffer s \<noteq> None then s\<lparr>s_graphics_framebuffer := None\<rparr> else s)"

definition rgb_display_init :: "display_state \<Rightarrow> display_state" where
  "rgb_display_init s = rebuild_attr_lut (s\<lparr>s_vga_palette := init_vga_palette (s_vga_palette s)\<rparr>)"

definition rgb_display_set_buffer :: "display_state \<Rightarrow> nat option \<Rightarrow> display_state" where
  "rgb_display_set_buffer s cells = s\<lparr>s_display_buffer := cells\<rparr>"

definition rgb_display_set_callbacks ::
  "display_state \<Rightarrow> rgb_display_callbacks option \<Rightarrow> display_state" where
  "rgb_display_set_callbacks s cb = s\<lparr>s_callbacks := cb\<rparr>"

definition rgb_display_set_cursor :: "display_state \<Rightarrow> int \<Rightarrow> int \<Rightarrow> display_state" where
  "rgb_display_set_cursor s col row = s\<lparr>s_cursor_col := col, s_cursor_row := row\<rparr>"

definition rgb_display_get_mode :: "display_state \<Rightarrow> int" where
  "rgb_display_get_mode s = s_screen_mode s"

definition rgb_display_get_framebuffer :: "display_state \<Rightarrow> u8 list option" where
  "rgb_display_get_framebuffer s = s_graphics_framebuffer s"

definition rgb_display_get_fb_width :: "display_state \<Rightarrow> int" where
  "rgb_display_get_fb_width s = s_gfx_width s"

definition rgb_display_get_fb_height :: "display_state \<Rightarrow> int" where
  "rgb_display_get_fb_height s = s_gfx_height s"

text \<open>Whether the hook table is there, the hook is there, and what it returns.\<close>

definition hook :: "display_state \<Rightarrow> (rgb_display_callbacks \<Rightarrow> 'a option) \<Rightarrow> 'a option" where
  "hook s f = (case s_callbacks s of None \<Rightarrow> None | Some cb \<Rightarrow> f cb)"

text \<open>
  \<open>rgb_display_set_mode\<close> returns its status and the new state.  The calls of
  \<open>exit_graphics\<close> and \<open>flush_input\<close> change nothing in the module: their results are
  ignored.
\<close>

definition rgb_display_set_mode :: "heap_caps \<Rightarrow> display_state \<Rightarrow> int \<Rightarrow> int \<times> display_state" where
  "rgb_display_set_mode hp s mode =
     (if mode = s_screen_mode s then (0, s)
      else if mode = SM_VGA13H \<or> mode = SM_150P then
        (case hook s enter_graphics of
           Some r \<Rightarrow>
             if r \<noteq> 0 then (- 1, s)
             else (case allocate_graphics_framebuffer hp s mode of
                     (rc, s1) \<Rightarrow>
                       if rc \<noteq> 0 then (- 1, s1)
                       else (0, s1\<lparr>s_screen_mode := mode, s_display_buffer := None\<rparr>))
         | None \<Rightarrow>
             (case allocate_graphics_framebuffer hp s mode of
                (rc, s1) \<Rightarrow>
                  if rc \<noteq> 0 then (- 1, s1)
                  else (0, s1\<lparr>s_screen_mode := mode, s_display_buffer := None\<rparr>)))
      else if mode = SM_TEXT then
        (let s1 = s\<lparr>s_screen_mode := SM_TEXT\<rparr>;
             s2 = free_graphics_framebuffer s1;
             s3 = (case hook s2 get_text_buffer of
                     None \<Rightarrow> s2
                   | Some p \<Rightarrow> s2\<lparr>s_display_buffer := p\<rparr>)
         in (0, s3))
      else (- 1, s))"

section \<open>Scanline synthesizer\<close>








section \<open>Graphics primitives (rgb\_gfx.c)\<close>

text \<open>
  A primitive returns the state with the framebuffer it has written, or the fault of a
  write outside the framebuffer.  \<open>memset(&fb[off], color, n)\<close>: \<open>n\<close> becomes a
  \<open>size_t\<close>, so a negative \<open>n\<close> is a huge count.
\<close>

definition memset8 :: "u8 list \<Rightarrow> int \<Rightarrow> u8 \<Rightarrow> int \<Rightarrow> fault + u8 list" where
  "memset8 fb off color n =
     (if 0 \<le> off \<and> 0 \<le> n \<and> off + n \<le> int (length fb)
      then Inr (take (nat off) fb @ replicate (nat n) color @ drop (nat (off + n)) fb)
      else Inl OutOfBounds)"

definition store8 :: "u8 list \<Rightarrow> int \<Rightarrow> u8 \<Rightarrow> fault + u8 list" where
  "store8 fb i v =
     (if 0 \<le> i \<and> i < int (length fb) then Inr (fb[nat i := v]) else Inl OutOfBounds)"

definition with_fb :: "display_state \<Rightarrow> fault + u8 list \<Rightarrow> fault + display_state" where
  "with_fb s r =
     (case r of Inl e \<Rightarrow> Inl e | Inr fb' \<Rightarrow> Inr (s\<lparr>s_graphics_framebuffer := Some fb'\<rparr>))"

definition bind_f :: "fault + 'a \<Rightarrow> ('a \<Rightarrow> fault + 'b) \<Rightarrow> fault + 'b" where
  "bind_f m f = (case m of Inl e \<Rightarrow> Inl e | Inr v \<Rightarrow> f v)"

definition rgb_gfx_clear :: "display_state \<Rightarrow> u8 \<Rightarrow> fault + display_state" where
  "rgb_gfx_clear s color =
     (let w = rgb_display_get_fb_width s; h = rgb_display_get_fb_height s
      in case rgb_display_get_framebuffer s of
           None \<Rightarrow> Inr s
         | Some fb \<Rightarrow>
             if w > 0 \<and> h > 0 then with_fb s (memset8 fb 0 color (wrap32 (w * h)))
             else Inr s)"

definition rgb_gfx_pixel :: "display_state \<Rightarrow> int \<Rightarrow> int \<Rightarrow> u8 \<Rightarrow> fault + display_state" where
  "rgb_gfx_pixel s x y color =
     (let w = rgb_display_get_fb_width s; h = rgb_display_get_fb_height s
      in case rgb_display_get_framebuffer s of
           None \<Rightarrow> Inr s
         | Some fb \<Rightarrow>
             if x \<ge> 0 \<and> x < w \<and> y \<ge> 0 \<and> y < h
             then with_fb s (store8 fb (wrap32 (wrap32 (y * w) + x)) color)
             else Inr s)"

definition rgb_gfx_hline :: "display_state \<Rightarrow> int \<Rightarrow> int \<Rightarrow> int \<Rightarrow> u8 \<Rightarrow> fault + display_state" where
  "rgb_gfx_hline s x y len color =
     (let w = rgb_display_get_fb_width s; h = rgb_display_get_fb_height s
      in case rgb_display_get_framebuffer s of
           None \<Rightarrow> Inr s
         | Some fb \<Rightarrow>
             if y < 0 \<or> y \<ge> h \<or> len \<le> 0 then Inr s
             else
               let len1 = (if x < 0 then wrap32 (len + x) else len);
                   x1 = (if x < 0 then 0 else x);
                   len2 = (if wrap32 (x1 + len1) > w then wrap32 (w - x1) else len1)
               in if len2 \<le> 0 then Inr s
                  else with_fb s (memset8 fb (wrap32 (wrap32 (y * w) + x1)) color len2))"

definition rgb_gfx_vline :: "display_state \<Rightarrow> int \<Rightarrow> int \<Rightarrow> int \<Rightarrow> u8 \<Rightarrow> fault + display_state" where
  "rgb_gfx_vline s x y len color =
     (let w = rgb_display_get_fb_width s; h = rgb_display_get_fb_height s
      in case rgb_display_get_framebuffer s of
           None \<Rightarrow> Inr s
         | Some fb \<Rightarrow>
             if x < 0 \<or> x \<ge> w \<or> len \<le> 0 then Inr s
             else
               let len1 = (if y < 0 then wrap32 (len + y) else len);
                   y1 = (if y < 0 then 0 else y);
                   len2 = (if wrap32 (y1 + len1) > h then wrap32 (h - y1) else len1)
               in if len2 \<le> 0 then Inr s
                  else
                    with_fb s
                      (case for_loop_f 0 len2
                              (\<lambda>i (p, fb). case store8 fb p color of
                                              Inl e \<Rightarrow> Inl e
                                            | Inr fb' \<Rightarrow> Inr (p + w, fb'))
                              (wrap32 (wrap32 (y1 * w) + x), fb) of
                         Inl e \<Rightarrow> Inl e
                       | Inr (p, fb') \<Rightarrow> Inr fb'))"

definition rgb_gfx_rect ::
  "display_state \<Rightarrow> int \<Rightarrow> int \<Rightarrow> int \<Rightarrow> int \<Rightarrow> u8 \<Rightarrow> fault + display_state" where
  "rgb_gfx_rect s x y rw rh color =
     (if rw \<le> 0 \<or> rh \<le> 0 then Inr s
      else
        bind_f (rgb_gfx_hline s x y rw color) (\<lambda>s1.
        bind_f (rgb_gfx_hline s1 x (wrap32 (wrap32 (y + rh) - 1)) rw color) (\<lambda>s2.
          if rh > 2 then
            bind_f (rgb_gfx_vline s2 x (wrap32 (y + 1)) (wrap32 (rh - 2)) color) (\<lambda>s3.
              rgb_gfx_vline s3 (wrap32 (wrap32 (x + rw) - 1)) (wrap32 (y + 1))
                (wrap32 (rh - 2)) color)
          else Inr s2)))"

definition rgb_gfx_rectfill ::
  "display_state \<Rightarrow> int \<Rightarrow> int \<Rightarrow> int \<Rightarrow> int \<Rightarrow> u8 \<Rightarrow> fault + display_state" where
  "rgb_gfx_rectfill s x y rw rh color =
     (let w = rgb_display_get_fb_width s; h = rgb_display_get_fb_height s
      in case rgb_display_get_framebuffer s of
           None \<Rightarrow> Inr s
         | Some fb \<Rightarrow>
             if rw \<le> 0 \<or> rh \<le> 0 then Inr s
             else
               let x1 = wrap32 (x + rw); y1 = wrap32 (y + rh);
                   x0 = (if x < 0 then 0 else x);
                   y0 = (if y < 0 then 0 else y);
                   x1 = (if x1 > w then w else x1);
                   y1 = (if y1 > h then h else y1);
                   clipped_w = wrap32 (x1 - x0);
                   clipped_h = wrap32 (y1 - y0)
               in if clipped_w \<le> 0 \<or> clipped_h \<le> 0 then Inr s
                  else
                    with_fb s
                      (for_loop_f y0 y1
                         (\<lambda>row fb. memset8 fb (wrap32 (wrap32 (row * w) + x0)) color clipped_w)
                         fb))"

text \<open>
  The sprite \<open>data\<close> is the memory seen through the pointer: a byte for every offset, or
  \<open>None\<close> for a NULL pointer.  It is taken not to overlap the framebuffer.
  \<open>(uint8_t)transparent_color\<close> is the argument modulo 256.
\<close>

definition blit_pixel ::
  "int \<Rightarrow> int \<Rightarrow> int \<Rightarrow> int \<Rightarrow> int \<Rightarrow> u8 \<Rightarrow> u8 list \<Rightarrow> fault + u8 list" where
  "blit_pixel w x dst_row transparent_color sx pixel fb =
     (let dx = wrap32 (x + sx)
      in if dx < 0 \<or> dx \<ge> w then Inr fb
         else if transparent_color < 0 \<or> uint pixel \<noteq> transparent_color mod 256
              then store8 fb (dst_row + dx) pixel
              else Inr fb)"

definition rgb_gfx_blit ::
  "display_state \<Rightarrow> (int \<Rightarrow> u8) option \<Rightarrow> int \<Rightarrow> int \<Rightarrow> int \<Rightarrow> int \<Rightarrow> int \<Rightarrow> int \<Rightarrow>
   fault + display_state" where
  "rgb_gfx_blit s data x y sw sh src_stride transparent_color =
     (let w = rgb_display_get_fb_width s; h = rgb_display_get_fb_height s
      in case rgb_display_get_framebuffer s of
           None \<Rightarrow> Inr s
         | Some fb \<Rightarrow>
             (case data of
                None \<Rightarrow> Inr s
              | Some mem \<Rightarrow>
                  if sw \<le> 0 \<or> sh \<le> 0 then Inr s
                  else
                    with_fb s
                      (for_loop_f 0 sh
                         (\<lambda>sy fb.
                            let dy = wrap32 (y + sy)
                            in if dy < 0 \<or> dy \<ge> h then Inr fb
                               else
                                 let src_row = wrap32 (sy * src_stride);
                                     dst_row = wrap32 (dy * w)
                                 in for_loop_f 0 sw
                                      (\<lambda>sx fb. blit_pixel w x dst_row transparent_color sx
                                                  (mem (src_row + sx)) fb)
                                      fb)
                         fb)))"

definition rgb_gfx_blit_flip ::
  "display_state \<Rightarrow> (int \<Rightarrow> u8) option \<Rightarrow> int \<Rightarrow> int \<Rightarrow> int \<Rightarrow> int \<Rightarrow> int \<Rightarrow> int \<Rightarrow>
   bool \<Rightarrow> bool \<Rightarrow> fault + display_state" where
  "rgb_gfx_blit_flip s data x y sw sh src_stride transparent_color flip_x flip_y =
     (let w = rgb_display_get_fb_width s; h = rgb_display_get_fb_height s
      in case rgb_display_get_framebuffer s of
           None \<Rightarrow> Inr s
         | Some fb \<Rightarrow>
             (case data of
                None \<Rightarrow> Inr s
              | Some mem \<Rightarrow>
                  if sw \<le> 0 \<or> sh \<le> 0 then Inr s
                  else
                    with_fb s
                      (for_loop_f 0 sh
                         (\<lambda>sy fb.
                            let src_y = (if flip_y then wrap32 (wrap32 (sh - 1) - sy) else sy);
                                dy = wrap32 (y + sy)
                            in if dy < 0 \<or> dy \<ge> h then Inr fb
                               else
                                 let src_row = wrap32 (src_y * src_stride);
                                     dst_row = wrap32 (dy * w)
                                 in for_loop_f 0 sw
                                      (\<lambda>sx fb.
                                         let src_x = (if flip_x then wrap32 (wrap32 (sw - 1) - sx)
                                                      else sx)
                                         in blit_pixel w x dst_row transparent_color sx
                                              (mem (src_row + src_x)) fb)
                                      fb)
                         fb)))"

section \<open>Sequences of public operations\<close>

datatype display_op =
    Op_init
  | Op_set_buffer "nat option"
  | Op_set_callbacks "rgb_display_callbacks option"
  | Op_set_mode heap_caps int
  | Op_set_cursor int int
  | Op_refresh_palette
  | Op_set_vga_palette "u8 \<Rightarrow> u16"
  | Op_set_vga_palette_entry int u16

fun apply_op :: "display_state \<Rightarrow> display_op \<Rightarrow> display_state" where
  "apply_op s Op_init = rgb_display_init s"
| "apply_op s (Op_set_buffer cells) = rgb_display_set_buffer s cells"
| "apply_op s (Op_set_callbacks cb) = rgb_display_set_callbacks s cb"
| "apply_op s (Op_set_mode hp mode) = snd (rgb_display_set_mode hp s mode)"
| "apply_op s Op_refresh_palette = rgb_display_refresh_palette s"
| "apply_op s (Op_set_cursor col row) = rgb_display_set_cursor s col row"
| "apply_op s (Op_set_vga_palette palette) = rgb_display_set_vga_palette s palette"
| "apply_op s (Op_set_vga_palette_entry index rgb565) =
     rgb_display_set_vga_palette_entry s index rgb565"

text \<open>The state after a sequence of calls, from the statically initialised module.\<close>

definition run_ops :: "display_op list \<Rightarrow> display_state" where
  "run_ops ops = foldl apply_op static_state ops"

section \<open>Reference definitions for the claims\<close>

text \<open>Two heaps for the examples: one that serves every request, one that is exhausted.\<close>

definition heap_ok :: heap_caps where
  "heap_ok = \<lparr>internal_ok = True, spiram_ok = None\<rparr>"

definition heap_full :: heap_caps where
  "heap_full = \<lparr>internal_ok = False, spiram_ok = Some False\<rparr>"

definition is_graphics_mode :: "int \<Rightarrow> bool" where
  "is_graphics_mode m \<longleftrightarrow> m = SM_VGA13H \<or> m = SM_150P"

text \<open>
  The invariant as the specification words it: the text-buffer reference is non-null only
  in Text mode, the framebuffer is non-null only in a graphics mode, and exactly one of the
  two is active.
\<close>

definition buffers_exclusive :: "display_state \<Rightarrow> bool" where
  "buffers_exclusive s \<longleftrightarrow>
     (s_display_buffer s \<noteq> None \<longrightarrow> s_screen_mode s = SM_TEXT)
     \<and> (s_graphics_framebuffer s \<noteq> None \<longrightarrow> is_graphics_mode (s_screen_mode s))
     \<and> ((s_display_buffer s \<noteq> None) \<noteq> (s_graphics_framebuffer s \<noteq> None))"

text \<open>The part of it that the mode state machine keeps.\<close>

definition mode_fb_inv :: "display_state \<Rightarrow> bool" where
  "mode_fb_inv s \<longleftrightarrow>
     (s_screen_mode s = SM_TEXT \<or> is_graphics_mode (s_screen_mode s))
     \<and> (s_graphics_framebuffer s \<noteq> None \<longleftrightarrow> is_graphics_mode (s_screen_mode s))"

text \<open>
  The attribute table as the specification words it: the background colour is the palette
  entry of the high nibble, the foreground colour that of the low nibble, each replicated
  into both halves of a 32-bit word.
\<close>

definition twice16 :: "u16 \<Rightarrow> u32" where
  "twice16 c = word_cat c c"

definition attr_lut_direct :: "u16 list \<Rightarrow> u8 \<Rightarrow> u32 \<times> u32" where
  "attr_lut_direct palette attr =
     (let bg_word = twice16 (palette ! unat (drop_bit 4 attr));
          fg_word = twice16 (palette ! unat (attr AND 0x0F))
      in (bg_word, fg_word XOR bg_word))"

text \<open>
  A proof device for loops that fill a byte-indexed table through a running index: \<open>B\<close>
  writes the \<open>m\<close> values \<open>G 0 .. G (m-1)\<close> at \<open>idx .. idx+m-1\<close>, touches no other entry,
  and advances the index by \<open>m\<close>.
\<close>

definition block_writer ::
  "((u8 \<Rightarrow> 'v) \<times> int \<Rightarrow> (u8 \<Rightarrow> 'v) \<times> int) \<Rightarrow> int \<Rightarrow> (int \<Rightarrow> 'v) \<Rightarrow> bool" where
  "block_writer B m G \<longleftrightarrow>
     (\<forall>pal idx. 0 \<le> idx \<and> idx + m \<le> 256 \<longrightarrow>
        snd (B (pal, idx)) = idx + m
        \<and> (\<forall>j. 0 \<le> j \<and> j < 256 \<longrightarrow>
              fst (B (pal, idx)) (word_of_int j) =
                (if idx \<le> j \<and> j < idx + m then G (j - idx) else pal (word_of_int j))))"

text \<open>The colour of cube position \<open>d = 36 r + 6 g + b\<close>.\<close>

definition cube_entry :: "int \<Rightarrow> u16" where
  "cube_entry d = cube_rgb565 (d div 36) ((d mod 36) div 6) (d mod 6)"

text \<open>
  The scanline synthesizer's graphics path as the specification words it.  The pixel at
  column \<open>col\<close> of panel row \<open>lcd_y\<close>: the source row is \<open>lcd_y\<close> divided by the upscale
  factor; rows past the framebuffer's height are black; after the left margin every source
  pixel goes through the palette and is repeated by the factor; the rest is black.
\<close>

definition gfx_scanline_pixel :: "display_state \<Rightarrow> u8 list \<Rightarrow> int \<Rightarrow> int \<Rightarrow> u16" where
  "gfx_scanline_pixel s fb lcd_y col =
     (let k = (if s_gfx_scale s = 4 then 4 else 3);
          src_y = lcd_y div s_gfx_scale s;
          rel = col - s_gfx_margin_x s
      in if src_y < s_gfx_height s \<and> 0 \<le> rel \<and> rel < k * s_gfx_width s
         then s_vga_palette s (fb ! nat (src_y * s_gfx_width s + rel div k))
         else 0)"





text \<open>
  A scene made with the public calls: initialisation, a switch to Graphics-256x150, palette
  entry 5 set to 0x1234, the framebuffer cleared to index 5.
\<close>

definition scene_150p :: display_state where
  "scene_150p =
     (case rgb_gfx_clear
             (run_ops [Op_init, Op_set_mode heap_ok SM_150P, Op_set_vga_palette_entry 5 0x1234]) 5 of
        Inl e \<Rightarrow> static_state
      | Inr s \<Rightarrow> s)"

text \<open>
  A state the primitives can draw on: a framebuffer of exactly width times height bytes, both
  dimensions positive, the byte count a C \<open>int\<close>.
\<close>

definition fb_ok :: "display_state \<Rightarrow> bool" where
  "fb_ok s \<longleftrightarrow>
     (\<exists>fb. s_graphics_framebuffer s = Some fb
           \<and> int (length fb) = s_gfx_width s * s_gfx_height s)
     \<and> 0 < s_gfx_width s \<and> 0 < s_gfx_height s
     \<and> c_int (s_gfx_width s * s_gfx_height s)"

text \<open>
  \<open>painted s r f\<close>: the call returned normally from state \<open>s\<close>; nothing but the bytes of the
  framebuffer changed and the framebuffer kept its length; the byte of every pixel \<open>(x, y)\<close> of
  the screen is \<open>c\<close> where \<open>f x y = Some c\<close> and is the byte it was where \<open>f x y = None\<close>.
  With \<open>fb_ok s\<close> every byte of the framebuffer is the byte of one such pixel.
\<close>

definition painted ::
  "display_state \<Rightarrow> fault + display_state \<Rightarrow> (int \<Rightarrow> int \<Rightarrow> u8 option) \<Rightarrow> bool" where
  "painted s r f \<longleftrightarrow>
     (\<exists>fb fb'. s_graphics_framebuffer s = Some fb
        \<and> r = Inr (s\<lparr>s_graphics_framebuffer := Some fb'\<rparr>)
        \<and> length fb' = length fb
        \<and> (\<forall>x y. 0 \<le> x \<and> x < s_gfx_width s \<and> 0 \<le> y \<and> y < s_gfx_height s \<longrightarrow>
              fb' ! nat (y * s_gfx_width s + x) =
                (case f x y of None \<Rightarrow> fb ! nat (y * s_gfx_width s + x) | Some c \<Rightarrow> c)))"

text \<open>
  The source byte that \<open>rgb_gfx_blit\<close> and \<open>rgb_gfx_blit_flip\<close> read for the sprite position
  \<open>(sx, sy)\<close>, as the index expressions of the two loops give it.
\<close>

definition blit_source :: "(int \<Rightarrow> u8) \<Rightarrow> int \<Rightarrow> int \<Rightarrow> int \<Rightarrow> u8" where
  "blit_source mem src_stride sx sy = mem (wrap32 (sy * src_stride) + sx)"

definition blit_flip_source ::
  "(int \<Rightarrow> u8) \<Rightarrow> int \<Rightarrow> int \<Rightarrow> int \<Rightarrow> bool \<Rightarrow> bool \<Rightarrow> int \<Rightarrow> int \<Rightarrow> u8" where
  "blit_flip_source mem src_stride sw sh flip_x flip_y sx sy =
     mem (wrap32 ((if flip_y then sh - 1 - sy else sy) * src_stride)
          + (if flip_x then sw - 1 - sx else sx))"

text \<open>
  What a blit of the sprite \<open>src\<close> at \<open>(x, y)\<close> leaves at the screen position \<open>(x', y')\<close>: the
  source pixel, unless the position is outside the sprite or the pixel is the transparent one.
\<close>

definition blit_paint ::
  "(int \<Rightarrow> int \<Rightarrow> u8) \<Rightarrow> int \<Rightarrow> int \<Rightarrow> int \<Rightarrow> int \<Rightarrow> int \<Rightarrow> int \<Rightarrow> int \<Rightarrow> u8 option" where
  "blit_paint src x y sw sh transparent_color x' y' =
     (if x \<le> x' \<and> x' < x + sw \<and> y \<le> y' \<and> y' < y + sh
         \<and> (transparent_color < 0 \<or> uint (src (x' - x) (y' - y)) \<noteq> transparent_color mod 256)
      then Some (src (x' - x) (y' - y)) else None)"

text \<open>Nothing to draw on: no framebuffer, or a dimension that is zero.\<close>

definition gfx_idle :: "display_state \<Rightarrow> bool" where
  "gfx_idle s \<longleftrightarrow>
     s_graphics_framebuffer s = None \<or> s_gfx_width s = 0 \<or> s_gfx_height s = 0"

text \<open>
  The dimensions are those of the initial state or of one of the two graphics variants, and a
  framebuffer has the size of the dimensions.
\<close>

definition fb_shape_inv :: "display_state \<Rightarrow> bool" where
  "fb_shape_inv s \<longleftrightarrow>
     ((s_gfx_width s, s_gfx_height s) = (0, 0)
      \<or> (s_gfx_width s, s_gfx_height s) = (GFX_VGA_WIDTH, GFX_VGA_HEIGHT)
      \<or> (s_gfx_width s, s_gfx_height s) = (GFX_150P_WIDTH, GFX_150P_HEIGHT))
     \<and> (case s_graphics_framebuffer s of
          None \<Rightarrow> True
        | Some fb \<Rightarrow> 0 < s_gfx_width s \<and> int (length fb) = s_gfx_width s * s_gfx_height s)"

text \<open>
  A hook table whose \<open>get_text_palette\<close> returns a palette other than the CGA colours, and
  no other hook.
\<close>

definition example_palette :: "u16 list" where
  "example_palette =
     [0x1000, 0x1001, 0x1002, 0x1003, 0x1004, 0x1005, 0x1006, 0x1007,
      0x1008, 0x1009, 0x100A, 0x100B, 0x100C, 0x100D, 0x100E, 0x100F]"

definition example_callbacks :: rgb_display_callbacks where
  "example_callbacks =
     \<lparr>get_text_palette = Some example_palette, enter_graphics = None, exit_graphics = None,
      get_text_buffer = None, flush_input = None\<rparr>"

section \<open>Basic facts\<close>

lemmas gfx_consts =
  SCREEN_WIDTH_def SCREEN_HEIGHT_def
  GFX_VGA_WIDTH_def GFX_VGA_HEIGHT_def GFX_VGA_SIZE_def GFX_VGA_SCALE_def GFX_VGA_MARGIN_X_def
  GFX_150P_WIDTH_def GFX_150P_HEIGHT_def GFX_150P_SIZE_def GFX_150P_SCALE_def

lemmas mode_consts = SM_TEXT_def SM_VGA13H_def SM_150P_def

lemmas set_mode_defs =
  rgb_display_set_mode_def allocate_graphics_framebuffer_def alloc_sized_def
  free_graphics_framebuffer_def heap_caps_malloc_fb_def hook_def

lemmas op_defs =
  run_ops_def rgb_display_init_def rebuild_attr_lut_def rgb_display_set_buffer_def
  rgb_display_set_callbacks_def rgb_display_set_cursor_def rgb_display_refresh_palette_def
  rgb_display_set_vga_palette_def rgb_display_set_vga_palette_entry_def

lemmas getter_defs =
  rgb_display_get_mode_def rgb_display_get_framebuffer_def rgb_display_get_fb_width_def
  rgb_display_get_fb_height_def

section \<open>Indexed palette: the colour cube\<close>

lemma word_of_int_u8_eq:
  "0 \<le> i \<Longrightarrow> i < 256 \<Longrightarrow> (word_of_int i = (a :: u8)) \<longleftrightarrow> i = uint a"
proof -
  assume a: "0 \<le> i" "i < 256"
  have "uint (word_of_int i :: u8) = i"
    using a by (simp add: uint_word_of_int)
  then show ?thesis
    by (metis word_of_int_uint)
qed

lemma word_of_int_u8_inj:
  "0 \<le> i \<Longrightarrow> i < 256 \<Longrightarrow> 0 \<le> j \<Longrightarrow> j < 256 \<Longrightarrow>
   (word_of_int i = (word_of_int j :: u8)) \<longleftrightarrow> i = j"
  by (simp add: word_of_int_inj)

lemma block_writer_single:
  "block_writer (\<lambda>(pal, idx). (pal(word_of_int idx := v), idx + 1)) 1 (\<lambda>_. v)"
  unfolding block_writer_def
proof (intro allI impI conjI)
  fix pal :: "u8 \<Rightarrow> 'a" and idx j :: int
  assume r: "0 \<le> idx \<and> idx + 1 \<le> 256" and j: "0 \<le> j \<and> j < 256"
  have "(word_of_int j = (word_of_int idx :: u8)) \<longleftrightarrow> j = idx"
    using r j by (intro word_of_int_u8_inj) auto
  then show "fst (case (pal, idx) of (pal, idx) \<Rightarrow> (pal(word_of_int idx := v), idx + 1))
          (word_of_int j) =
         (if idx \<le> j \<and> j < idx + 1 then v else pal (word_of_int j))"
    by auto
qed simp

lemma block_writer_empty: "block_writer (\<lambda>st. st) 0 G"
  by (auto simp add: block_writer_def)

lemma block_writer_seq:
  assumes A: "block_writer A m G" and B: "block_writer B k H" and m: "0 \<le> m" and k: "0 \<le> k"
  shows "block_writer (\<lambda>st. B (A st)) (m + k) (\<lambda>d. if d < m then G d else H (d - m))"
  unfolding block_writer_def
proof (intro allI impI)
  fix pal idx
  assume r: "0 \<le> idx \<and> idx + (m + k) \<le> 256"
  obtain pal1 idx1 where a1: "A (pal, idx) = (pal1, idx1)" by (cases "A (pal, idx)")
  have ra: "0 \<le> idx \<and> idx + m \<le> 256" using r k by simp
  from A ra a1 have i1: "idx1 = idx + m"
    and p1: "\<And>j. 0 \<le> j \<Longrightarrow> j < 256 \<Longrightarrow>
       pal1 (word_of_int j) = (if idx \<le> j \<and> j < idx + m then G (j - idx) else pal (word_of_int j))"
    unfolding block_writer_def by (metis snd_conv, metis fst_conv)
  have rb: "0 \<le> idx1 \<and> idx1 + k \<le> 256" using r m i1 by simp
  from B rb have i2: "snd (B (pal1, idx1)) = idx1 + k"
    and p2: "\<And>j. 0 \<le> j \<Longrightarrow> j < 256 \<Longrightarrow>
       fst (B (pal1, idx1)) (word_of_int j) =
         (if idx1 \<le> j \<and> j < idx1 + k then H (j - idx1) else pal1 (word_of_int j))"
    unfolding block_writer_def by blast+
  show "snd (B (A (pal, idx))) = idx + (m + k) \<and>
        (\<forall>j. 0 \<le> j \<and> j < 256 \<longrightarrow>
           fst (B (A (pal, idx))) (word_of_int j) =
             (if idx \<le> j \<and> j < idx + (m + k)
              then if j - idx < m then G (j - idx) else H (j - idx - m)
              else pal (word_of_int j)))"
    using i1 i2 p1 p2 m k by (auto simp add: a1 diff_diff_eq)
qed

lemma block_writer_cong:
  "block_writer B m G \<Longrightarrow> (\<And>d. 0 \<le> d \<Longrightarrow> d < m \<Longrightarrow> G d = G' d) \<Longrightarrow> block_writer B m G'"
  unfolding block_writer_def by auto

lemma block_writer_for_loop:
  assumes m: "0 < m" and B: "\<And>k. i \<le> k \<Longrightarrow> k < n \<Longrightarrow> block_writer (B k) m (G k)"
    and le: "i \<le> n"
  shows "block_writer (for_loop i n B) ((n - i) * m) (\<lambda>d. G (i + d div m) (d mod m))"
  using B le
proof (induction "nat (n - i)" arbitrary: i)
  case 0
  then have "for_loop i n B = (\<lambda>st. st)"
    by (auto simp add: for_loop.simps)
  with 0 show ?case
    by (simp add: block_writer_empty)
next
  case (Suc x)
  then have True: "i < n" by simp
  have e: "for_loop i n B = (\<lambda>st. for_loop (i + 1) n B (B i st))"
    using True by (auto simp add: for_loop.simps[of i])
  have ih: "block_writer (for_loop (i + 1) n B) ((n - (i + 1)) * m)
             (\<lambda>d. G (i + 1 + d div m) (d mod m))"
    using Suc by auto
  have bi: "block_writer (B i) m (G i)" using Suc(3) True by simp
  have "block_writer (\<lambda>st. for_loop (i + 1) n B (B i st)) (m + (n - (i + 1)) * m)
          (\<lambda>d. if d < m then G i d else G (i + 1 + (d - m) div m) ((d - m) mod m))"
    using block_writer_seq[OF bi ih] m True by simp
  moreover have "m + (n - (i + 1)) * m = (n - i) * m"
    by (simp add: algebra_simps)
  ultimately have "block_writer (for_loop i n B) ((n - i) * m)
          (\<lambda>d. if d < m then G i d else G (i + 1 + (d - m) div m) ((d - m) mod m))"
    using e by simp
  then show ?case
  proof (rule block_writer_cong)
    fix d :: int
    assume d: "0 \<le> d" "d < (n - i) * m"
    show "(if d < m then G i d else G (i + 1 + (d - m) div m) ((d - m) mod m)) =
          G (i + d div m) (d mod m)"
    proof (cases "d < m")
      case True
      then show ?thesis using d by simp
    next
      case False
      have "d div m = (d - m) div m + 1" using m
        by (metis diff_add_cancel div_add_self2 less_irrefl)
      then have "i + d div m = i + 1 + (d - m) div m"
        by simp
      moreover have "(d - m) mod m = d mod m" using m
        by simp
      ultimately show ?thesis using False by (simp only: if_False)
    qed
  qed
qed

lemma for_loop_offset_table:
  "0 \<le> i \<Longrightarrow> i \<le> n \<Longrightarrow> 0 \<le> base \<Longrightarrow> base + n \<le> 256 \<Longrightarrow> 0 \<le> j \<Longrightarrow> j < 256 \<Longrightarrow>
   for_loop i n (\<lambda>k (t :: u8 \<Rightarrow> 'b). t(word_of_int (base + k) := f k)) t0 (word_of_int j) =
     (if base + i \<le> j \<and> j < base + n then f (j - base) else t0 (word_of_int j))"
proof (induction "nat (n - i)" arbitrary: i t0)
  case 0
  then show ?case by (auto simp add: for_loop.simps)
next
  case (Suc x)
  then have lt: "i < n" by simp
  have e: "(word_of_int (base + i) = (word_of_int j :: u8)) \<longleftrightarrow> base + i = j"
    using Suc(3-) lt by (intro word_of_int_u8_inj) auto
  have "for_loop i n (\<lambda>k t. t(word_of_int (base + k) := f k)) t0 (word_of_int j) =
        for_loop (i + 1) n (\<lambda>k t. t(word_of_int (base + k) := f k))
          (t0(word_of_int (base + i) := f i)) (word_of_int j)"
    using lt by (subst for_loop.simps) simp
  also have "\<dots> = (if base + (i + 1) \<le> j \<and> j < base + n then f (j - base)
                     else (t0(word_of_int (base + i) := f i)) (word_of_int j))"
    using Suc lt by (intro Suc(1)) auto
  also have "\<dots> = (if base + i \<le> j \<and> j < base + n then f (j - base) else t0 (word_of_int j))"
    using e lt by (cases "base + i = j") auto
  finally show ?case .
qed

lemma cube_nest:
  "block_writer (for_loop 0 6 (\<lambda>r. for_loop 0 6 (\<lambda>g. for_loop 0 6 (\<lambda>b (pal, idx).
                   (pal(word_of_int idx := cube_rgb565 r g b), idx + 1))))) 216 cube_entry"
proof -
  have b: "block_writer (for_loop 0 6 (\<lambda>b (pal, idx).
                   (pal(word_of_int idx := cube_rgb565 r g b), idx + 1))) 6
             (\<lambda>d. cube_rgb565 r g d)" for r g
  proof -
    have "block_writer (for_loop 0 6 (\<lambda>b (pal, idx).
                   (pal(word_of_int idx := cube_rgb565 r g b), idx + 1))) ((6 - 0) * 1)
             (\<lambda>d. cube_rgb565 r g (0 + d div 1))"
      by (rule block_writer_for_loop[where G = "\<lambda>b d. cube_rgb565 r g b"])
        (simp, rule block_writer_single, simp)
    then show ?thesis by simp
  qed
  have g: "block_writer (for_loop 0 6 (\<lambda>g. for_loop 0 6 (\<lambda>b (pal, idx).
                   (pal(word_of_int idx := cube_rgb565 r g b), idx + 1)))) 36
             (\<lambda>d. cube_rgb565 r (d div 6) (d mod 6))" for r
  proof -
    have "block_writer (for_loop 0 6 (\<lambda>g. for_loop 0 6 (\<lambda>b (pal, idx).
                   (pal(word_of_int idx := cube_rgb565 r g b), idx + 1)))) ((6 - 0) * 6)
             (\<lambda>d. cube_rgb565 r (0 + d div 6) (d mod 6))"
      by (rule block_writer_for_loop[where G = "\<lambda>g d. cube_rgb565 r g d"])
        (simp, rule b, simp)
    then show ?thesis by simp
  qed
  have "block_writer (for_loop 0 6 (\<lambda>r. for_loop 0 6 (\<lambda>g. for_loop 0 6 (\<lambda>b (pal, idx).
                   (pal(word_of_int idx := cube_rgb565 r g b), idx + 1))))) ((6 - 0) * 36)
             (\<lambda>d. cube_rgb565 (0 + d div 36) ((d mod 36) div 6) ((d mod 36) mod 6))"
    by (rule block_writer_for_loop[where G = "\<lambda>r d. cube_rgb565 r (d div 6) (d mod 6)"])
      (simp, rule g, simp)
  moreover have "\<And>d::int. (d mod 36) mod 6 = d mod 6"
    by (simp add: mod_mod_cancel)
  ultimately show ?thesis
    by (simp add: cube_entry_def[abs_def])
qed

lemma init_vga_palette_entries:
  assumes "0 \<le> j" and "j < 256"
  shows "init_vga_palette pal0 (word_of_int j) =
          (if j < 16 then s_cga_colors ! nat j
           else if j < 232 then cube_entry (j - 16)
           else gray_rgb565 (j - 232))"
proof -
  define pal1 where "pal1 = (\<lambda>i :: u8. if unat i < 16 then s_cga_colors ! unat i else pal0 i)"
  define cube where "cube = for_loop 0 6 (\<lambda>r. for_loop 0 6 (\<lambda>g. for_loop 0 6 (\<lambda>b (pal, idx).
                   (pal(word_of_int idx := cube_rgb565 r g b), idx + 1)))) (pal1, 16)"
  have u: "unat (word_of_int j :: u8) = nat j"
    using assms by (simp add: unat_eq_nat_uint uint_word_of_int)
  have c: "fst cube (word_of_int j) =
             (if 16 \<le> j \<and> j < 16 + 216 then cube_entry (j - 16) else pal1 (word_of_int j))"
    using cube_nest assms unfolding block_writer_def cube_def by simp
  have "init_vga_palette pal0 (word_of_int j) =
          for_loop 0 24 (\<lambda>i pal. pal(word_of_int (232 + i) := gray_rgb565 i)) (fst cube) (word_of_int j)"
    by (simp add: init_vga_palette_def pal1_def cube_def Let_def)
  also have "\<dots> = (if 232 + 0 \<le> j \<and> j < 232 + 24 then gray_rgb565 (j - 232)
                     else fst cube (word_of_int j))"
    using assms by (intro for_loop_offset_table) auto
  finally show ?thesis
    using c u assms by (auto simp add: pal1_def)
qed


lemma init_palette_of_init:
  "s_vga_palette (rgb_display_init s) = init_vga_palette (s_vga_palette s)"
  by (simp add: rgb_display_init_def rebuild_attr_lut_def Let_def)

lemma cube_entry_corners:
  "cube_entry 0 = 0 \<and> cube_entry 35 = cube_rgb565 0 5 5 \<and> cube_entry 215 = cube_rgb565 5 5 5
   \<and> cube_rgb565 0 5 5 = 0x07FF \<and> cube_rgb565 5 5 5 = 0xFFFF"
  by (simp add: cube_entry_def cube_rgb565_def c_div_def)

text \<open>
  Claim C7, as amended.  After \<open>rgb_display_init\<close> has built the indexed palette, entry 16
  (cube position r=0, g=0, b=0) is 0.  Entry 16+6*6-1 = 51 is cube position r=0, g=5, b=5:
  it is the RGB565 packing of level-0 red with level-5 green and level-5 blue, 0x07FF.  The
  packing of level 5 in all three channels, 0xFFFF, is the last cube entry, 16+6*6*6-1 = 231.
\<close>

theorem vga_palette_cube_corners:
  "s_vga_palette (rgb_display_init s) 16 = 0
   \<and> s_vga_palette (rgb_display_init s) (16 + 6 * 6 - 1) = cube_rgb565 0 5 5
   \<and> cube_rgb565 0 5 5 = 0x07FF
   \<and> s_vga_palette (rgb_display_init s) (16 + 6 * 6 * 6 - 1) = cube_rgb565 5 5 5
   \<and> cube_rgb565 5 5 5 = 0xFFFF"
  using init_vga_palette_entries [of 16 "s_vga_palette s"]
    init_vga_palette_entries [of 51 "s_vga_palette s"]
    init_vga_palette_entries [of 231 "s_vga_palette s"] cube_entry_corners
  by (simp add: init_palette_of_init)

text \<open>
  Claim C7 as stated fails: entry 16+6*6-1 is not the packing of level 5 in all three
  channels.
\<close>

theorem vga_palette_entry_51_not_white:
  "s_vga_palette (rgb_display_init static_state) (16 + 6 * 6 - 1) \<noteq> cube_rgb565 5 5 5"
  using init_vga_palette_entries [of 51 "s_vga_palette static_state"] cube_entry_corners
  by (simp add: init_palette_of_init)

section \<open>Indexed palette: single entries\<close>

text \<open>
  Claim C9.  For an index in [0,255], \<open>set_vga_palette_entry\<close> followed by
  \<open>get_vga_palette_entry\<close> returns the colour that was set.  For an index outside
  [0,255], \<open>get_vga_palette_entry\<close> returns 0 and \<open>set_vga_palette_entry\<close> writes
  nothing: the palette, and the whole state, are unchanged.
\<close>

theorem vga_palette_entry_roundtrip:
  "(0 \<le> i \<and> i \<le> 255 \<longrightarrow>
      rgb_display_get_vga_palette_entry (rgb_display_set_vga_palette_entry s i c) i = c)
   \<and> (\<not> (0 \<le> i \<and> i \<le> 255) \<longrightarrow>
        rgb_display_get_vga_palette_entry s i = 0
        \<and> s_vga_palette (rgb_display_set_vga_palette_entry s i c) = s_vga_palette s
        \<and> rgb_display_set_vga_palette_entry s i c = s)"
  by (simp add: rgb_display_get_vga_palette_entry_def rgb_display_set_vga_palette_entry_def)

theorem vga_palette_entry_roundtrip_witness:
  "(0 \<le> (5::int) \<and> (5::int) \<le> 255)
   \<and> rgb_display_get_vga_palette_entry
        (rgb_display_set_vga_palette_entry static_state 5 0x1234) 5 = 0x1234
   \<and> \<not> (0 \<le> (256::int) \<and> (256::int) \<le> 255)
   \<and> rgb_display_get_vga_palette_entry static_state 256 = 0
   \<and> rgb_display_set_vga_palette_entry static_state 256 0x1234 = static_state
   \<and> \<not> (0 \<le> (- 1::int) \<and> (- 1::int) \<le> 255)
   \<and> rgb_display_get_vga_palette_entry static_state (- 1) = 0
   \<and> rgb_display_set_vga_palette_entry static_state (- 1) 0x1234 = static_state"
  using vga_palette_entry_roundtrip [of 5 static_state "0x1234"]
    vga_palette_entry_roundtrip [of 256 static_state "0x1234"]
    vga_palette_entry_roundtrip [of "- 1" static_state "0x1234"]
  by simp

section \<open>Attribute lookup table\<close>

lemma twice16_halves: "ucast (twice16 c) = c \<and> ucast (drop_bit 16 (twice16 c)) = c"
  unfolding twice16_def
  by (auto simp add: bit_eq_iff bit_simps)

text \<open>A loop that fills a byte-indexed table from \<open>i\<close> upwards.\<close>

lemma for_loop_table:
  "0 \<le> i \<Longrightarrow> i \<le> 256 \<Longrightarrow>
   for_loop i 256 (\<lambda>k (t :: u8 \<Rightarrow> 'b). t(word_of_int k := f k)) t0 a =
     (if i \<le> uint a then f (uint a) else t0 a)"
proof (induction i "256 :: int" "\<lambda>k (t :: u8 \<Rightarrow> 'b). t(word_of_int k := f k)" t0
    rule: for_loop.induct)
  case (1 i t0)
  have b: "uint a < 256" using uint_bounded[of a] by simp
  show ?case
  proof (cases "i < 256")
    case True
    have e: "(word_of_int i = a) \<longleftrightarrow> i = uint a"
      using True 1(2) by (rule_tac word_of_int_u8_eq) auto
    have "for_loop i 256 (\<lambda>k t. t(word_of_int k := f k)) t0 a =
          for_loop (i + 1) 256 (\<lambda>k t. t(word_of_int k := f k)) (t0(word_of_int i := f i)) a"
      using True by (subst for_loop.simps) simp
    also have "\<dots> = (if i + 1 \<le> uint a then f (uint a) else (t0(word_of_int i := f i)) a)"
      using True 1 by simp
    also have "\<dots> = (if i \<le> uint a then f (uint a) else t0 a)"
      using e by (cases "i = uint a") auto
    finally show ?thesis .
  next
    case False
    with b 1 show ?thesis
      by (subst for_loop.simps) auto
  qed
qed

lemma int_and_15: "(k::int) AND 15 = k mod 16"
proof -
  have "(15::int) = mask 4"
    by (simp add: mask_eq_exp_minus_1)
  then show ?thesis
    by (simp only: take_bit_eq_mask[symmetric] take_bit_eq_mod) simp
qed

lemma attr_entry_direct: "attr_entry palette (uint a) = attr_lut_direct palette a"
proof -
  have fg: "nat (uint a AND 15) = unat (a AND 15)"
    by (simp add: uint_and flip: nat_uint_eq)
  have lt: "uint a div 16 < 16"
    using uint_bounded[of a] by simp
  have ge: "0 \<le> uint a div 16"
    by (simp add: pos_imp_zdiv_nonneg_iff)
  have "drop_bit 4 (uint a) AND 15 = uint a div 16"
    using lt ge by (simp add: drop_bit_eq_div int_and_15)
  moreover have "nat (uint a div 16) = unat a div 16"
    by (simp add: nat_div_distrib)
  moreover have "unat (drop_bit 4 a) = unat a div 16"
    by (simp add: unat_drop_bit_eq drop_bit_eq_div unat_div)
  ultimately have bg: "nat (drop_bit 4 (uint a) AND 15) = unat (drop_bit 4 a)"
    by simp
  show ?thesis
    by (simp add: attr_entry_def attr_lut_direct_def LCD_ATTR_FG_def LCD_ATTR_BG_def
        twice16_def word_cat_eq_push_bit_or fg bg Let_def)
qed

text \<open>
  Claim C6.  \<open>rebuild_attr_lut\<close> takes the palette from the \<open>get_text_palette\<close> hook, and the
  CGA colours when there is no hook table or no such hook.  When the hook returns the 16
  entries \<open>pal\<close>, then for every attribute byte the rebuilt table holds the pair of
  \<open>attr_lut_direct pal\<close>: \<open>bg_word\<close> is \<open>pal\<close> at the high nibble in both halves of a 32-bit
  word, \<open>xor_word\<close> is the likewise replicated \<open>pal\<close> at the low nibble XOR \<open>bg_word\<close>; without
  the hook the same holds of the CGA colours.  \<open>rgb_display_refresh_palette\<close> is this rebuild.
  The rebuild is deterministic: the table it leaves does not depend on the table it found,
  a second rebuild changes nothing, and nothing but the table changes.
\<close>

theorem rebuild_attr_lut_hook_palette:
  "(\<forall>cb pal. s_callbacks s = Some cb \<and> get_text_palette cb = Some pal \<and> length pal = 16 \<longrightarrow>
      ATTR_LUT (rebuild_attr_lut s) = attr_lut_direct pal
      \<and> (\<forall>a. fst (ATTR_LUT (rebuild_attr_lut s) a) = twice16 (pal ! unat (drop_bit 4 a))
            \<and> snd (ATTR_LUT (rebuild_attr_lut s) a)
                = twice16 (pal ! unat (a AND 0x0F)) XOR fst (ATTR_LUT (rebuild_attr_lut s) a)))
   \<and> (s_callbacks s = None \<or> (\<exists>cb. s_callbacks s = Some cb \<and> get_text_palette cb = None) \<longrightarrow>
      ATTR_LUT (rebuild_attr_lut s) = attr_lut_direct s_cga_colors
      \<and> (\<forall>a. fst (ATTR_LUT (rebuild_attr_lut s) a) = twice16 (s_cga_colors ! unat (drop_bit 4 a))
            \<and> snd (ATTR_LUT (rebuild_attr_lut s) a)
                = twice16 (s_cga_colors ! unat (a AND 0x0F))
                    XOR fst (ATTR_LUT (rebuild_attr_lut s) a)))
   \<and> rgb_display_refresh_palette s = rebuild_attr_lut s
   \<and> rebuild_attr_lut (s\<lparr>ATTR_LUT := lut0\<rparr>) = rebuild_attr_lut s
   \<and> rebuild_attr_lut (rebuild_attr_lut s) = rebuild_attr_lut s
   \<and> rebuild_attr_lut s = s\<lparr>ATTR_LUT := ATTR_LUT (rebuild_attr_lut s)\<rparr>"
proof -
  have tab: "ATTR_LUT (rebuild_attr_lut t) = attr_lut_direct (text_palette t)" for t
  proof
    fix a :: u8
    have "0 \<le> uint a" by simp
    then show "ATTR_LUT (rebuild_attr_lut t) a = attr_lut_direct (text_palette t) a"
      by (simp add: rebuild_attr_lut_def Let_def for_loop_table attr_entry_direct)
  qed
  have shape: "rebuild_attr_lut t = t\<lparr>ATTR_LUT := attr_lut_direct (text_palette t)\<rparr>" for t
  proof -
    have "rebuild_attr_lut t = t\<lparr>ATTR_LUT := ATTR_LUT (rebuild_attr_lut t)\<rparr>"
      by (simp add: rebuild_attr_lut_def Let_def)
    then show ?thesis by (simp add: tab)
  qed
  have hookp: "text_palette s = pal"
    if "s_callbacks s = Some cb" "get_text_palette cb = Some pal" for cb pal
    using that by (simp add: text_palette_def)
  have nohook: "text_palette s = s_cga_colors"
    if "s_callbacks s = None \<or> (\<exists>cb. s_callbacks s = Some cb \<and> get_text_palette cb = None)"
    using that by (auto simp add: text_palette_def)
  have entries: "fst (attr_lut_direct p a) = twice16 (p ! unat (drop_bit 4 a))
      \<and> snd (attr_lut_direct p a) = twice16 (p ! unat (a AND 0x0F)) XOR fst (attr_lut_direct p a)"
    for p a
    by (simp add: attr_lut_direct_def Let_def)
  have 1: "\<forall>cb pal. s_callbacks s = Some cb \<and> get_text_palette cb = Some pal \<and> length pal = 16 \<longrightarrow>
      ATTR_LUT (rebuild_attr_lut s) = attr_lut_direct pal
      \<and> (\<forall>a. fst (ATTR_LUT (rebuild_attr_lut s) a) = twice16 (pal ! unat (drop_bit 4 a))
            \<and> snd (ATTR_LUT (rebuild_attr_lut s) a)
                = twice16 (pal ! unat (a AND 0x0F)) XOR fst (ATTR_LUT (rebuild_attr_lut s) a))"
    using hookp entries by (simp add: tab)
  have 2: "s_callbacks s = None \<or> (\<exists>cb. s_callbacks s = Some cb \<and> get_text_palette cb = None) \<longrightarrow>
      ATTR_LUT (rebuild_attr_lut s) = attr_lut_direct s_cga_colors
      \<and> (\<forall>a. fst (ATTR_LUT (rebuild_attr_lut s) a) = twice16 (s_cga_colors ! unat (drop_bit 4 a))
            \<and> snd (ATTR_LUT (rebuild_attr_lut s) a)
                = twice16 (s_cga_colors ! unat (a AND 0x0F))
                    XOR fst (ATTR_LUT (rebuild_attr_lut s) a))"
    using nohook entries by (simp add: tab)
  have 3: "rgb_display_refresh_palette s = rebuild_attr_lut s"
    by (simp add: rgb_display_refresh_palette_def)
  have 4: "rebuild_attr_lut (s\<lparr>ATTR_LUT := lut0\<rparr>) = rebuild_attr_lut s"
    by (simp add: shape text_palette_def)
  have 5: "rebuild_attr_lut (rebuild_attr_lut s) = rebuild_attr_lut s"
    by (simp add: shape text_palette_def)
  have 6: "rebuild_attr_lut s = s\<lparr>ATTR_LUT := ATTR_LUT (rebuild_attr_lut s)\<rparr>"
    by (simp add: rebuild_attr_lut_def Let_def)
  from 1 2 3 4 5 6 show ?thesis by (intro conjI)
qed

text \<open>
  The theorem after \<open>rgb_display_set_callbacks\<close> with a hook table whose palette is not the
  CGA one, and at the initial state, which has no hook table.
\<close>

theorem rebuild_attr_lut_hook_palette_witness:
  "s_callbacks (run_ops [Op_set_callbacks (Some example_callbacks)]) = Some example_callbacks
   \<and> get_text_palette example_callbacks = Some example_palette
   \<and> length example_palette = 16
   \<and> ATTR_LUT (run_ops [Op_set_callbacks (Some example_callbacks), Op_refresh_palette]) 0x1F
       = (0x10011001, 0x000E000E)
   \<and> s_callbacks static_state = None
   \<and> ATTR_LUT (rebuild_attr_lut static_state) 0x1F = (0x00150015, 0xFFEAFFEA)"
proof -
  have h: "s_callbacks (run_ops [Op_set_callbacks (Some example_callbacks)])
             = Some example_callbacks"
    "get_text_palette example_callbacks = Some example_palette"
    "length example_palette = 16"
    "s_callbacks static_state = None"
    by (simp_all add: run_ops_def rgb_display_set_callbacks_def example_callbacks_def
        example_palette_def static_state_def)
  have r: "run_ops [Op_set_callbacks (Some example_callbacks), Op_refresh_palette]
      = rebuild_attr_lut (run_ops [Op_set_callbacks (Some example_callbacks)])"
    by (simp add: run_ops_def rgb_display_refresh_palette_def)
  have e1: "attr_lut_direct example_palette 0x1F = (0x10011001, 0x000E000E)"
    by (simp add: attr_lut_direct_def twice16_def word_cat_eq_push_bit_or example_palette_def)
  have e2: "attr_lut_direct s_cga_colors 0x1F = (0x00150015, 0xFFEAFFEA)"
    by (simp add: attr_lut_direct_def twice16_def word_cat_eq_push_bit_or s_cga_colors_def)
  from rebuild_attr_lut_hook_palette
         [of "run_ops [Op_set_callbacks (Some example_callbacks)]"] h
  have a: "ATTR_LUT (rebuild_attr_lut (run_ops [Op_set_callbacks (Some example_callbacks)]))
      = attr_lut_direct example_palette"
    by blast
  from rebuild_attr_lut_hook_palette [of static_state] h
  have b: "ATTR_LUT (rebuild_attr_lut static_state) = attr_lut_direct s_cga_colors"
    by blast
  from a b h r e1 e2 show ?thesis
    by simp
qed

section \<open>Scanline synthesizer: the graphics path\<close>

lemma for_loop_f_empty: "n \<le> i \<Longrightarrow> for_loop_f i n body s = Inr s"
  by (simp add: for_loop_f.simps)

lemma for_loop_f_step:
  "i < n \<Longrightarrow> body i s = Inr t \<Longrightarrow> for_loop_f i n body s = for_loop_f (i + 1) n body t"
  by (subst for_loop_f.simps) simp

lemma for_loop_f_rule:
  assumes "i \<le> n" and "P i s"
    and step: "\<And>k t. i \<le> k \<Longrightarrow> k < n \<Longrightarrow> P k t \<Longrightarrow> \<exists>t'. body k t = Inr t' \<and> P (k + 1) t'"
  shows "\<exists>t. for_loop_f i n body s = Inr t \<and> P n t"
  using assms
proof (induction "nat (n - i)" arbitrary: i s)
  case 0
  then have "i = n" by simp
  with 0 show ?case by (simp add: for_loop_f_empty)
next
  case (Suc x)
  then have lt: "i < n" by simp
  from Suc(5)[OF _ lt Suc(4)] obtain t where t: "body i s = Inr t" "P (i + 1) t"
    by auto
  have "\<exists>u. for_loop_f (i + 1) n body t = Inr u \<and> P n u"
  proof (rule Suc(1))
    show "x = nat (n - (i + 1))" using Suc(2) by simp
    show "i + 1 \<le> n" using lt by simp
    show "P (i + 1) t" by (rule t)
    show "\<And>k t. i + 1 \<le> k \<Longrightarrow> k < n \<Longrightarrow> P k t \<Longrightarrow> \<exists>t'. body k t = Inr t' \<and> P (k + 1) t'"
      using Suc(5) by simp
  qed
  then show ?case
    using for_loop_f_step[of i n body s t] lt t(1) by simp
qed






lemma wrap32_id: "c_int v \<Longrightarrow> wrap32 v = v"
  by (simp add: c_int_def wrap32_def)


lemma c_int_between: "c_int a \<Longrightarrow> a \<le> v \<Longrightarrow> v \<le> b \<Longrightarrow> c_int b \<Longrightarrow> c_int v"
  by (simp add: c_int_def)








lemma gfx_scanline_pixel_frame_count [simp]:
  "gfx_scanline_pixel (s\<lparr>s_frame_count := c\<rparr>) = gfx_scanline_pixel s"
  by (intro ext) (simp add: gfx_scanline_pixel_def Let_def)






lemma scene_150p_fields:
  "s_screen_mode scene_150p = SM_150P"
  "s_gfx_width scene_150p = GFX_150P_WIDTH" "s_gfx_height scene_150p = GFX_150P_HEIGHT"
  "s_gfx_scale scene_150p = GFX_150P_SCALE" "s_gfx_margin_x scene_150p = 0"
  "s_graphics_framebuffer scene_150p = Some (replicate (nat GFX_150P_SIZE) 5)"
  "s_vga_palette scene_150p 5 = 0x1234"
  by (simp_all add: scene_150p_def rgb_gfx_clear_def memset8_def with_fb_def wrap32_def
      run_ops_def rgb_display_init_def rebuild_attr_lut_def Let_def
      rgb_display_set_vga_palette_entry_def
      rgb_display_set_mode_def allocate_graphics_framebuffer_def alloc_sized_def
      heap_caps_malloc_fb_def hook_def
      rgb_display_get_framebuffer_def rgb_display_get_fb_width_def rgb_display_get_fb_height_def
      static_state_def heap_ok_def SM_TEXT_def SM_VGA13H_def SM_150P_def gfx_consts)



section \<open>Mode state machine\<close>

text \<open>
  Claim C2, at a failing input.  After initialisation, a successful switch to
  Graphics-320x200 and a successful switch back to Text, the mode is Text, yet
  \<open>rgb_display_get_fb_width\<close> and \<open>rgb_display_get_fb_height\<close> return 320 and 200, not 0:
  nothing resets the dimensions when the framebuffer is freed.
\<close>

theorem fb_dims_stale_in_text_mode:
  "rgb_display_get_mode
     (run_ops [Op_init, Op_set_mode heap_ok SM_VGA13H, Op_set_mode heap_ok SM_TEXT]) = SM_TEXT
   \<and> rgb_display_get_framebuffer
     (run_ops [Op_init, Op_set_mode heap_ok SM_VGA13H, Op_set_mode heap_ok SM_TEXT]) = None
   \<and> rgb_display_get_fb_width
     (run_ops [Op_init, Op_set_mode heap_ok SM_VGA13H, Op_set_mode heap_ok SM_TEXT]) = 320
   \<and> rgb_display_get_fb_height
     (run_ops [Op_init, Op_set_mode heap_ok SM_VGA13H, Op_set_mode heap_ok SM_TEXT]) = 200"
  by (simp add: op_defs set_mode_defs getter_defs static_state_def heap_ok_def mode_consts
      gfx_consts)

text \<open>
  Claim C3, at a failing input.  From Graphics-320x200 a call of \<open>set_mode\<close> for
  Graphics-256x150 succeeds and the mode becomes Graphics-256x150, but the framebuffer is not
  freed and reallocated: it keeps its 64000 bytes, and width, height, upscale factor and
  margin stay 320, 200, 3 and 32.
\<close>

theorem graphics_to_graphics_keeps_framebuffer:
  "fst (rgb_display_set_mode heap_ok (run_ops [Op_init, Op_set_mode heap_ok SM_VGA13H]) SM_150P)
     = 0
   \<and> rgb_display_get_mode
     (run_ops [Op_init, Op_set_mode heap_ok SM_VGA13H, Op_set_mode heap_ok SM_150P]) = SM_150P
   \<and> rgb_display_get_fb_width
     (run_ops [Op_init, Op_set_mode heap_ok SM_VGA13H, Op_set_mode heap_ok SM_150P]) = 320
   \<and> rgb_display_get_fb_height
     (run_ops [Op_init, Op_set_mode heap_ok SM_VGA13H, Op_set_mode heap_ok SM_150P]) = 200
   \<and> s_gfx_scale
     (run_ops [Op_init, Op_set_mode heap_ok SM_VGA13H, Op_set_mode heap_ok SM_150P]) = 3
   \<and> s_gfx_margin_x
     (run_ops [Op_init, Op_set_mode heap_ok SM_VGA13H, Op_set_mode heap_ok SM_150P]) = 32
   \<and> map_option length (rgb_display_get_framebuffer
     (run_ops [Op_init, Op_set_mode heap_ok SM_VGA13H, Op_set_mode heap_ok SM_150P]))
     = Some 64000"
  by (simp add: op_defs set_mode_defs getter_defs static_state_def heap_ok_def mode_consts
      gfx_consts)

lemma mode_fb_inv_static: "mode_fb_inv static_state"
  by (simp add: mode_fb_inv_def static_state_def is_graphics_mode_def mode_consts)

lemma mode_fb_inv_set_mode:
  "mode_fb_inv s \<Longrightarrow> mode_fb_inv (snd (rgb_display_set_mode hp s m))"
  by (auto simp add: mode_fb_inv_def is_graphics_mode_def set_mode_defs mode_consts Let_def
      split: if_splits option.splits)

lemma mode_fb_inv_apply_op: "mode_fb_inv s \<Longrightarrow> mode_fb_inv (apply_op s opn)"
proof (cases opn)
  case (Op_set_mode hp m)
  assume "mode_fb_inv s"
  then show ?thesis
    using Op_set_mode by (simp add: mode_fb_inv_set_mode)
next
  case (Op_set_vga_palette_entry i c)
  assume "mode_fb_inv s"
  then show ?thesis
    using Op_set_vga_palette_entry
    by (simp add: mode_fb_inv_def rgb_display_set_vga_palette_entry_def)
qed (simp_all add: mode_fb_inv_def rgb_display_init_def rebuild_attr_lut_def
       rgb_display_set_buffer_def rgb_display_set_callbacks_def rgb_display_set_cursor_def
       rgb_display_refresh_palette_def rgb_display_set_vga_palette_def Let_def)

lemma mode_fb_inv_foldl: "mode_fb_inv s \<Longrightarrow> mode_fb_inv (foldl apply_op s ops)"
  by (induction ops arbitrary: s) (simp_all add: mode_fb_inv_apply_op)

lemma mode_fb_inv_run_ops: "mode_fb_inv (run_ops ops)"
  unfolding run_ops_def by (rule mode_fb_inv_foldl [OF mode_fb_inv_static])

lemma set_mode_graphics_clears_text:
  "is_graphics_mode m \<Longrightarrow> m \<noteq> s_screen_mode s \<Longrightarrow>
   fst (rgb_display_set_mode hp s m) = 0 \<Longrightarrow>
   s_display_buffer (snd (rgb_display_set_mode hp s m)) = None"
  by (auto simp add: is_graphics_mode_def set_mode_defs mode_consts
      split: if_splits option.splits)

text \<open>
  Claim C4, as amended.  In every state reached by a sequence of the public operations, the
  graphics framebuffer pointer is non-null exactly when the mode is a graphics variant (so it
  is null in Text mode), and every successful change of mode into a graphics variant leaves
  the text-buffer reference null.  Nothing more is kept: the text-buffer reference may be null
  in Text mode, and \<open>set_buffer\<close> installs its argument in any mode.
\<close>

theorem framebuffer_iff_graphics_mode:
  "(s_graphics_framebuffer (run_ops ops) \<noteq> None \<longleftrightarrow>
      is_graphics_mode (rgb_display_get_mode (run_ops ops)))
   \<and> (rgb_display_get_mode (run_ops ops) = SM_TEXT \<longrightarrow>
        s_graphics_framebuffer (run_ops ops) = None)
   \<and> (is_graphics_mode m \<and> m \<noteq> rgb_display_get_mode (run_ops ops)
        \<and> fst (rgb_display_set_mode hp (run_ops ops) m) = 0 \<longrightarrow>
      s_display_buffer (snd (rgb_display_set_mode hp (run_ops ops) m)) = None)"
  using mode_fb_inv_run_ops[of ops] set_mode_graphics_clears_text[of m "run_ops ops" hp]
  by (auto simp add: mode_fb_inv_def rgb_display_get_mode_def is_graphics_mode_def mode_consts)

theorem framebuffer_iff_graphics_mode_witness:
  "rgb_display_get_mode (run_ops [Op_init, Op_set_buffer (Some 1)]) = SM_TEXT
   \<and> s_display_buffer (run_ops [Op_init, Op_set_buffer (Some 1)]) = Some 1
   \<and> s_graphics_framebuffer (run_ops [Op_init, Op_set_buffer (Some 1)]) = None
   \<and> is_graphics_mode SM_150P
   \<and> SM_150P \<noteq> rgb_display_get_mode (run_ops [Op_init, Op_set_buffer (Some 1)])
   \<and> fst (rgb_display_set_mode heap_ok (run_ops [Op_init, Op_set_buffer (Some 1)]) SM_150P) = 0
   \<and> s_display_buffer
       (snd (rgb_display_set_mode heap_ok (run_ops [Op_init, Op_set_buffer (Some 1)]) SM_150P))
     = None"
proof -
  have m: "rgb_display_get_mode (run_ops [Op_init, Op_set_buffer (Some 1)]) = SM_TEXT"
    by (simp add: op_defs getter_defs static_state_def)
  have g: "is_graphics_mode SM_150P
      \<and> SM_150P \<noteq> rgb_display_get_mode (run_ops [Op_init, Op_set_buffer (Some 1)])
      \<and> fst (rgb_display_set_mode heap_ok (run_ops [Op_init, Op_set_buffer (Some 1)]) SM_150P)
          = 0"
    by (simp add: is_graphics_mode_def op_defs getter_defs set_mode_defs static_state_def
        heap_ok_def mode_consts)
  have b: "s_display_buffer (run_ops [Op_init, Op_set_buffer (Some 1)]) = Some 1"
    by (simp add: op_defs)
  from framebuffer_iff_graphics_mode [of "[Op_init, Op_set_buffer (Some 1)]" SM_150P heap_ok]
    m g b
  show ?thesis by blast
qed

text \<open>
  Claim C4 as stated fails: after a switch to Graphics-256x150, \<open>set_buffer\<close> with a
  non-null buffer leaves the text-buffer reference and the framebuffer both non-null in a
  graphics mode.
\<close>

theorem text_buffer_set_in_graphics_mode:
  "s_screen_mode
     (run_ops [Op_init, Op_set_mode heap_ok SM_150P, Op_set_buffer (Some 1)]) = SM_150P
   \<and> s_display_buffer
     (run_ops [Op_init, Op_set_mode heap_ok SM_150P, Op_set_buffer (Some 1)]) = Some 1
   \<and> s_graphics_framebuffer
     (run_ops [Op_init, Op_set_mode heap_ok SM_150P, Op_set_buffer (Some 1)]) \<noteq> None
   \<and> \<not> buffers_exclusive
     (run_ops [Op_init, Op_set_mode heap_ok SM_150P, Op_set_buffer (Some 1)])"
  by (simp add: buffers_exclusive_def is_graphics_mode_def op_defs set_mode_defs
      static_state_def heap_ok_def mode_consts gfx_consts)

lemma set_mode_failure_fields:
  assumes "rgb_display_set_mode hp s m = (rc, s')" and "rc \<noteq> 0"
  shows "rgb_display_get_mode s' = rgb_display_get_mode s
       \<and> s_display_buffer s' = s_display_buffer s
       \<and> s_graphics_framebuffer s' = s_graphics_framebuffer s
       \<and> s' = s\<lparr>s_gfx_width := s_gfx_width s', s_gfx_height := s_gfx_height s',
                 s_gfx_scale := s_gfx_scale s', s_gfx_margin_x := s_gfx_margin_x s'\<rparr>
       \<and> ((\<exists>r. hook s enter_graphics = Some r \<and> r \<noteq> 0) \<or> \<not> is_graphics_mode m \<longrightarrow>
            s' = s)"
  using assms
  by (auto simp add: set_mode_defs getter_defs is_graphics_mode_def mode_consts Let_def
      split: if_splits option.splits)

text \<open>
  What a failed \<open>rgb_display_set_mode\<close> keeps: the mode, the text-buffer reference, the
  framebuffer pointer, and all of the state but the four cached framebuffer dimensions; the
  whole state when the failure comes from the enter-graphics hook or from an unrecognised
  mode value.
\<close>

theorem set_mode_failure_keeps_state:
  assumes "fst (rgb_display_set_mode hp s m) \<noteq> 0"
  shows "rgb_display_get_mode (snd (rgb_display_set_mode hp s m)) = rgb_display_get_mode s
       \<and> s_display_buffer (snd (rgb_display_set_mode hp s m)) = s_display_buffer s
       \<and> s_graphics_framebuffer (snd (rgb_display_set_mode hp s m)) = s_graphics_framebuffer s
       \<and> snd (rgb_display_set_mode hp s m) =
           s\<lparr>s_gfx_width := s_gfx_width (snd (rgb_display_set_mode hp s m)),
             s_gfx_height := s_gfx_height (snd (rgb_display_set_mode hp s m)),
             s_gfx_scale := s_gfx_scale (snd (rgb_display_set_mode hp s m)),
             s_gfx_margin_x := s_gfx_margin_x (snd (rgb_display_set_mode hp s m))\<rparr>
       \<and> ((\<exists>r. hook s enter_graphics = Some r \<and> r \<noteq> 0) \<or> \<not> is_graphics_mode m \<longrightarrow>
            snd (rgb_display_set_mode hp s m) = s)"
proof -
  obtain rc s' where e: "rgb_display_set_mode hp s m = (rc, s')"
    by (cases "rgb_display_set_mode hp s m")
  with assms have "rc \<noteq> 0" by simp
  from set_mode_failure_fields [OF e this] show ?thesis
    by (simp add: e)
qed

theorem set_mode_failure_keeps_state_witness:
  "fst (rgb_display_set_mode heap_full static_state SM_VGA13H) \<noteq> 0
   \<and> rgb_display_get_mode (snd (rgb_display_set_mode heap_full static_state SM_VGA13H)) = SM_TEXT
   \<and> s_display_buffer (snd (rgb_display_set_mode heap_full static_state SM_VGA13H)) = None
   \<and> s_graphics_framebuffer (snd (rgb_display_set_mode heap_full static_state SM_VGA13H)) = None
   \<and> fst (rgb_display_set_mode heap_ok static_state 7) \<noteq> 0
   \<and> \<not> is_graphics_mode 7
   \<and> snd (rgb_display_set_mode heap_ok static_state 7) = static_state"
proof -
  have f1: "fst (rgb_display_set_mode heap_full static_state SM_VGA13H) \<noteq> 0"
    by (simp add: set_mode_defs static_state_def heap_full_def mode_consts)
  have f2: "fst (rgb_display_set_mode heap_ok static_state 7) \<noteq> 0"
    by (simp add: set_mode_defs static_state_def mode_consts)
  have g: "\<not> is_graphics_mode 7"
    by (simp add: is_graphics_mode_def mode_consts)
  have i: "rgb_display_get_mode static_state = SM_TEXT \<and> s_display_buffer static_state = None
      \<and> s_graphics_framebuffer static_state = None"
    by (simp add: static_state_def getter_defs)
  from set_mode_failure_keeps_state [OF f1] set_mode_failure_keeps_state [OF f2] f1 f2 g i
  show ?thesis by simp
qed

text \<open>
  Claim C5, at a failing input.  After initialisation the mode is Text and
  \<open>rgb_display_get_fb_width\<close> and \<open>rgb_display_get_fb_height\<close> return 0.  A switch to
  Graphics-320x200 whose allocation fails returns -1; the mode is still Text, there is no
  framebuffer and the text-buffer reference is as before, but the module state is not
  unchanged: the two getters now return 320 and 200, in Text mode.
  \<open>allocate_graphics_framebuffer\<close> assigns the dimensions before the allocation that fails,
  and the rollback in \<open>rgb_display_set_mode\<close> does not restore them.
\<close>

theorem failed_allocation_changes_state:
  "rgb_display_get_mode (run_ops [Op_init]) = SM_TEXT
   \<and> rgb_display_get_fb_width (run_ops [Op_init]) = 0
   \<and> rgb_display_get_fb_height (run_ops [Op_init]) = 0
   \<and> fst (rgb_display_set_mode heap_full (run_ops [Op_init]) SM_VGA13H) = - 1
   \<and> rgb_display_get_mode (run_ops [Op_init, Op_set_mode heap_full SM_VGA13H]) = SM_TEXT
   \<and> rgb_display_get_framebuffer (run_ops [Op_init, Op_set_mode heap_full SM_VGA13H]) = None
   \<and> s_display_buffer (run_ops [Op_init, Op_set_mode heap_full SM_VGA13H])
       = s_display_buffer (run_ops [Op_init])
   \<and> rgb_display_get_fb_width (run_ops [Op_init, Op_set_mode heap_full SM_VGA13H]) = 320
   \<and> rgb_display_get_fb_height (run_ops [Op_init, Op_set_mode heap_full SM_VGA13H]) = 200
   \<and> run_ops [Op_init, Op_set_mode heap_full SM_VGA13H] \<noteq> run_ops [Op_init]"
proof -
  have w0: "rgb_display_get_fb_width (run_ops [Op_init]) = 0"
    by (simp add: op_defs getter_defs static_state_def Let_def)
  have w1: "rgb_display_get_fb_width (run_ops [Op_init, Op_set_mode heap_full SM_VGA13H]) = 320"
    by (simp add: op_defs set_mode_defs getter_defs static_state_def heap_full_def mode_consts
        gfx_consts Let_def)
  have ne: "run_ops [Op_init, Op_set_mode heap_full SM_VGA13H] \<noteq> run_ops [Op_init]"
  proof
    assume "run_ops [Op_init, Op_set_mode heap_full SM_VGA13H] = run_ops [Op_init]"
    with w0 w1 show False by simp
  qed
  have rest: "rgb_display_get_mode (run_ops [Op_init]) = SM_TEXT"
    "rgb_display_get_fb_height (run_ops [Op_init]) = 0"
    "fst (rgb_display_set_mode heap_full (run_ops [Op_init]) SM_VGA13H) = - 1"
    "rgb_display_get_mode (run_ops [Op_init, Op_set_mode heap_full SM_VGA13H]) = SM_TEXT"
    "rgb_display_get_framebuffer (run_ops [Op_init, Op_set_mode heap_full SM_VGA13H]) = None"
    "s_display_buffer (run_ops [Op_init, Op_set_mode heap_full SM_VGA13H])
       = s_display_buffer (run_ops [Op_init])"
    "rgb_display_get_fb_height (run_ops [Op_init, Op_set_mode heap_full SM_VGA13H]) = 200"
    by (simp_all add: op_defs set_mode_defs getter_defs static_state_def heap_full_def
        mode_consts gfx_consts Let_def)
  from w0 w1 ne rest show ?thesis by (intro conjI)
qed

section \<open>Graphics primitives: clipping and transparency\<close>

lemma memset8_spec:
  assumes "0 \<le> off" "0 \<le> n" "off + n \<le> int (length fb)"
  shows "\<exists>fb'. memset8 fb off color n = Inr fb' \<and> length fb' = length fb
          \<and> (\<forall>i. i < length fb \<longrightarrow>
                 fb' ! i = (if off \<le> int i \<and> int i < off + n then color else fb ! i))"
proof -
  define fb' where "fb' = take (nat off) fb @ replicate (nat n) color @ drop (nat (off + n)) fb"
  have e: "memset8 fb off color n = Inr fb'"
    using assms by (simp add: memset8_def fb'_def)
  have l: "length fb' = length fb"
    using assms by (simp add: fb'_def)
  have "fb' ! i = (if off \<le> int i \<and> int i < off + n then color else fb ! i)"
    if "i < length fb" for i
  proof -
    consider (a) "int i < off" | (b) "off \<le> int i" "int i < off + n" | (c) "off + n \<le> int i"
      by linarith
    then show ?thesis
    proof cases
      case a
      then show ?thesis using assms that by (simp add: fb'_def nth_append)
    next
      case b
      then have "i - nat off < nat n" "\<not> i < nat off" using assms by linarith+
      then show ?thesis using b assms that by (simp add: fb'_def nth_append)
    next
      case c
      then have 1: "\<not> i < nat off" "\<not> i - nat off < nat n" using assms by linarith+
      have 2: "nat (off + n) = nat off + nat n" using assms by (simp add: nat_add_distrib)
      have 3: "nat off + nat n + (i - (nat off + nat n)) = i" using c assms by linarith
      have "drop (nat off + nat n) fb ! (i - (nat off + nat n)) = fb ! i"
        using that 3 by simp
      then show ?thesis using c 1 2 assms that by (simp add: fb'_def nth_append)
    qed
  qed
  with e l show ?thesis by blast
qed

lemma store8_spec:
  assumes "0 \<le> off" "off < int (length fb)"
  shows "store8 fb off v = Inr (fb[nat off := v])"
  using assms by (simp add: store8_def)

text \<open>Coordinates and byte offsets.\<close>

lemma pixel_offset_range:
  fixes w h x y :: int
  assumes "0 \<le> x" "x < w" "0 \<le> y" "y < h"
  shows "0 \<le> y * w + x" "y * w + x < w * h" "0 \<le> y * w" "y * w + w \<le> w * h"
proof -
  have w: "0 < w" using assms by simp
  show 0: "0 \<le> y * w" using assms w by simp
  then show "0 \<le> y * w + x" using assms by simp
  have "(y + 1) * w \<le> h * w"
    using assms w by (intro mult_right_mono) auto
  then show "y * w + w \<le> w * h" by (simp add: algebra_simps)
  then show "y * w + x < w * h" using assms by simp
qed

lemma row_interval:
  fixes w x y x' y' x1 n :: int
  assumes "0 \<le> x1" "x1 + n \<le> w" "0 \<le> x'" "x' < w"
  shows "(y * w + x1 \<le> y' * w + x' \<and> y' * w + x' < y * w + x1 + n)
         \<longleftrightarrow> (y' = y \<and> x1 \<le> x' \<and> x' < x1 + n)"
proof (cases "y' = y")
  case True
  then show ?thesis by auto
next
  case False
  have w: "0 < w" using assms by simp
  show ?thesis
  proof (cases "y' < y")
    case True
    then have "(y' + 1) * w \<le> y * w"
      using w by (intro mult_right_mono) auto
    then have "y' * w + x' < y * w + x1"
      using assms by (simp add: algebra_simps)
    with False show ?thesis by auto
  next
    case ge: False
    with False have "(y + 1) * w \<le> y' * w"
      using w by (intro mult_right_mono) auto
    then have "y * w + x1 + n \<le> y' * w + x'"
      using assms by (simp add: algebra_simps)
    with False show ?thesis by auto
  qed
qed

lemma pixel_offset_inj:
  fixes w x y x' y' :: int
  assumes "0 \<le> x" "x < w" "0 \<le> x'" "x' < w"
  shows "y * w + x = y' * w + x' \<longleftrightarrow> y = y' \<and> x = x'"
  using row_interval[of x 1 w x' y y'] assms by auto


lemma fb_okE:
  assumes "fb_ok s"
  obtains fb where "s_graphics_framebuffer s = Some fb"
    "int (length fb) = s_gfx_width s * s_gfx_height s"
    "0 < s_gfx_width s" "0 < s_gfx_height s" "c_int (s_gfx_width s * s_gfx_height s)"
  using assms unfolding fb_ok_def by blast

lemma paintedI:
  assumes "s_graphics_framebuffer s = Some fb"
    and "r = Inr (s\<lparr>s_graphics_framebuffer := Some fb'\<rparr>)"
    and "length fb' = length fb"
    and "\<And>x y. 0 \<le> x \<Longrightarrow> x < s_gfx_width s \<Longrightarrow> 0 \<le> y \<Longrightarrow> y < s_gfx_height s \<Longrightarrow>
           fb' ! nat (y * s_gfx_width s + x) =
             (case f x y of None \<Rightarrow> fb ! nat (y * s_gfx_width s + x) | Some c \<Rightarrow> c)"
  shows "painted s r f"
  unfolding painted_def using assms by blast

lemma painted_noop:
  assumes "s_graphics_framebuffer s = Some fb"
    and "\<And>x y. 0 \<le> x \<Longrightarrow> x < s_gfx_width s \<Longrightarrow> 0 \<le> y \<Longrightarrow> y < s_gfx_height s \<Longrightarrow>
           f x y = None"
  shows "painted s (Inr s) f"
proof (rule paintedI[OF assms(1), of _ fb])
  show "Inr s = Inr (s\<lparr>s_graphics_framebuffer := Some fb\<rparr>)"
    using assms(1) by simp
qed (simp_all add: assms(2))

lemma painted_cong:
  assumes "painted s r f"
    and "\<And>x y. 0 \<le> x \<Longrightarrow> x < s_gfx_width s \<Longrightarrow> 0 \<le> y \<Longrightarrow> y < s_gfx_height s \<Longrightarrow>
           f x y = g x y"
  shows "painted s r g"
  using assms unfolding painted_def by (metis (no_types, lifting))

text \<open>A \<open>memset\<close> inside one framebuffer row.\<close>

lemma memset_row:
  fixes w h x0 n y :: int
  assumes len: "int (length fb) = w * h" and y: "0 \<le> y" "y < h"
    and x0: "0 \<le> x0" "0 \<le> n" "x0 + n \<le> w" "0 < w"
  shows "\<exists>fb'. memset8 fb (y * w + x0) color n = Inr fb' \<and> length fb' = length fb
          \<and> (\<forall>x' y'. 0 \<le> x' \<and> x' < w \<and> 0 \<le> y' \<and> y' < h \<longrightarrow>
                 fb' ! nat (y' * w + x') =
                   (if y' = y \<and> x0 \<le> x' \<and> x' < x0 + n then color
                    else fb ! nat (y' * w + x')))"
proof -
  have r: "0 \<le> y * w" "y * w + w \<le> w * h"
    using pixel_offset_range[of 0 w y h] y x0 by simp_all
  from memset8_spec[of "y * w + x0" n fb color] r x0 len
  obtain fb' where fb': "memset8 fb (y * w + x0) color n = Inr fb'" "length fb' = length fb"
    "\<And>i. i < length fb \<Longrightarrow>
        fb' ! i = (if y * w + x0 \<le> int i \<and> int i < y * w + x0 + n then color else fb ! i)"
    by auto
  have "fb' ! nat (y' * w + x') =
          (if y' = y \<and> x0 \<le> x' \<and> x' < x0 + n then color else fb ! nat (y' * w + x'))"
    if "0 \<le> x'" "x' < w" "0 \<le> y'" "y' < h" for x' y'
  proof -
    have o: "0 \<le> y' * w + x'" "y' * w + x' < w * h"
      using pixel_offset_range[OF that] by simp_all
    then have "nat (y' * w + x') < length fb" using len by linarith
    from fb'(3)[OF this] o show ?thesis
      using row_interval[of x0 n w x' y y'] x0 that by simp
  qed
  with fb'(1,2) show ?thesis by blast
qed

lemma rgb_gfx_clear_painted:
  assumes "fb_ok s"
  shows "painted s (rgb_gfx_clear s color) (\<lambda>x y. Some color)"
proof -
  from assms obtain fb where fb: "s_graphics_framebuffer s = Some fb"
    "int (length fb) = s_gfx_width s * s_gfx_height s"
    "0 < s_gfx_width s" "0 < s_gfx_height s" "c_int (s_gfx_width s * s_gfx_height s)"
    by (rule fb_okE)
  from memset8_spec[of 0 "s_gfx_width s * s_gfx_height s" fb color] fb
  obtain fb' where fb': "memset8 fb 0 color (s_gfx_width s * s_gfx_height s) = Inr fb'"
    "length fb' = length fb"
    "\<And>i. i < length fb \<Longrightarrow> fb' ! i = color"
    by auto
  show ?thesis
  proof (rule paintedI[OF fb(1) _ fb'(2)])
    show "rgb_gfx_clear s color = Inr (s\<lparr>s_graphics_framebuffer := Some fb'\<rparr>)"
      using fb fb'(1)
      by (simp add: rgb_gfx_clear_def getter_defs Let_def with_fb_def wrap32_id)
  next
    fix x y
    assume "0 \<le> x" "x < s_gfx_width s" "0 \<le> y" "y < s_gfx_height s"
    from pixel_offset_range[OF this] fb(2)
    have "nat (y * s_gfx_width s + x) < length fb" by linarith
    then show "fb' ! nat (y * s_gfx_width s + x) =
          (case Some color of None \<Rightarrow> fb ! nat (y * s_gfx_width s + x) | Some c \<Rightarrow> c)"
      using fb'(3) by simp
  qed
qed

lemma rgb_gfx_pixel_painted:
  assumes "fb_ok s"
  shows "painted s (rgb_gfx_pixel s x y color)
           (\<lambda>x' y'. if x' = x \<and> y' = y then Some color else None)"
proof -
  from assms obtain fb where fb: "s_graphics_framebuffer s = Some fb"
    "int (length fb) = s_gfx_width s * s_gfx_height s"
    "0 < s_gfx_width s" "0 < s_gfx_height s" "c_int (s_gfx_width s * s_gfx_height s)"
    by (rule fb_okE)
  show ?thesis
  proof (cases "x \<ge> 0 \<and> x < s_gfx_width s \<and> y \<ge> 0 \<and> y < s_gfx_height s")
    case False
    then have "rgb_gfx_pixel s x y color = Inr s"
      using fb by (auto simp add: rgb_gfx_pixel_def getter_defs Let_def)
    moreover have "painted s (Inr s) (\<lambda>x' y'. if x' = x \<and> y' = y then Some color else None)"
      using False by (intro painted_noop[OF fb(1)]) auto
    ultimately show ?thesis by simp
  next
    case True
    then have o: "0 \<le> y * s_gfx_width s + x" "y * s_gfx_width s + x < s_gfx_width s * s_gfx_height s"
      "0 \<le> y * s_gfx_width s"
      using pixel_offset_range[of x "s_gfx_width s" y "s_gfx_height s"] by simp_all
    have c: "c_int (y * s_gfx_width s)" "c_int (y * s_gfx_width s + x)"
      using o fb(5) True unfolding c_int_def by linarith+
    have e: "rgb_gfx_pixel s x y color =
             Inr (s\<lparr>s_graphics_framebuffer := Some (fb[nat (y * s_gfx_width s + x) := color])\<rparr>)"
      using True fb o c
      by (simp add: rgb_gfx_pixel_def getter_defs Let_def with_fb_def wrap32_id store8_def)
    show ?thesis
    proof (rule paintedI[OF fb(1) e])
      show "length (fb[nat (y * s_gfx_width s + x) := color]) = length fb" by simp
    next
      fix x' y'
      assume r: "0 \<le> x'" "x' < s_gfx_width s" "0 \<le> y'" "y' < s_gfx_height s"
      from pixel_offset_range[OF r] fb(2)
      have i: "nat (y' * s_gfx_width s + x') < length fb" "0 \<le> y' * s_gfx_width s + x'"
        by linarith+
      have "(nat (y * s_gfx_width s + x) = nat (y' * s_gfx_width s + x')) \<longleftrightarrow>
            (y * s_gfx_width s + x = y' * s_gfx_width s + x')"
        using o(1) i(2) by (rule eq_nat_nat_iff)
      also have "\<dots> \<longleftrightarrow> (y = y' \<and> x = x')"
        using True r by (intro pixel_offset_inj) auto
      finally have "(nat (y * s_gfx_width s + x) = nat (y' * s_gfx_width s + x')) \<longleftrightarrow>
            (y = y' \<and> x = x')" .
      then show "fb[nat (y * s_gfx_width s + x) := color] ! nat (y' * s_gfx_width s + x') =
            (case if x' = x \<and> y' = y then Some color else None of
               None \<Rightarrow> fb ! nat (y' * s_gfx_width s + x') | Some c \<Rightarrow> c)"
        using i(1) by (auto simp add: nth_list_update)
    qed
  qed
qed


lemma rgb_gfx_hline_painted:
  assumes ok: "fb_ok s" and cx: "c_int x" and cl: "c_int len" and nov: "x + len \<le> 2147483647"
  shows "painted s (rgb_gfx_hline s x y len color)
           (\<lambda>x' y'. if y' = y \<and> x \<le> x' \<and> x' < x + len then Some color else None)"
proof -
  define w where "w = s_gfx_width s"
  define h where "h = s_gfx_height s"
  from ok obtain fb where fb: "s_graphics_framebuffer s = Some fb"
    "int (length fb) = w * h" "0 < w" "0 < h" "c_int (w * h)"
    unfolding w_def h_def by (rule fb_okE)
  have cw: "c_int w"
  proof -
    have "w * 1 \<le> w * h" using fb(3,4) by (intro mult_left_mono) auto
    then show ?thesis using fb(3,5) unfolding c_int_def by linarith
  qed
  show ?thesis
  proof (cases "y < 0 \<or> y \<ge> h \<or> len \<le> 0")
    case True
    then have "rgb_gfx_hline s x y len color = Inr s"
      using fb by (auto simp add: rgb_gfx_hline_def getter_defs Let_def w_def h_def)
    moreover have "painted s (Inr s)
        (\<lambda>x' y'. if y' = y \<and> x \<le> x' \<and> x' < x + len then Some color else None)"
      using True by (intro painted_noop[OF fb(1)]) (auto simp add: w_def h_def)
    ultimately show ?thesis by simp
  next
    case False
    then have y: "0 \<le> y" "y < h" and lpos: "0 < len" by auto
    define x1 where "x1 = (if x < 0 then 0 else x)"
    define len1 where "len1 = (if x < 0 then wrap32 (len + x) else len)"
    define len2 where "len2 = (if wrap32 (x1 + len1) > w then wrap32 (w - x1) else len1)"
    have l1: "len1 = x + len - x1"
      using cx cl lpos by (auto simp add: len1_def x1_def wrap32_id c_int_def)
    have s1: "wrap32 (x1 + len1) = x + len"
      using l1 cx lpos nov by (simp add: wrap32_id c_int_def)
    have x1r: "0 \<le> x1" "c_int x1"
      using cx by (auto simp add: x1_def c_int_def)
    have "c_int (w - x1)"
      using x1r cw fb(3) by (simp add: c_int_def)
    then have l2: "len2 = (if x + len > w then w else x + len) - x1"
      using l1 s1 by (simp add: len2_def wrap32_id)
    have e0: "rgb_gfx_hline s x y len color =
          (if len2 \<le> 0 then Inr s
           else with_fb s (memset8 fb (wrap32 (wrap32 (y * w) + x1)) color len2))"
      using fb(1) False
      by (simp add: rgb_gfx_hline_def getter_defs Let_def w_def h_def x1_def len1_def len2_def)
    show ?thesis
    proof (cases "len2 \<le> 0")
      case True
      have "painted s (Inr s)
          (\<lambda>x' y'. if y' = y \<and> x \<le> x' \<and> x' < x + len then Some color else None)"
        using True l2 by (intro painted_noop[OF fb(1)]) (auto simp add: w_def x1_def split: if_splits)
      then show ?thesis using e0 True by simp
    next
      case pos: False
      then have span: "0 \<le> len2" "x1 + len2 \<le> w" "x1 < w"
        using l2 by (auto split: if_splits)
      have o: "0 \<le> y * w" "y * w + w \<le> w * h"
        using pixel_offset_range[of 0 w y h] y fb(3) by simp_all
      then have "c_int (y * w)" "c_int (y * w + x1)"
        using fb(5) span x1r(1) unfolding c_int_def by linarith+
      then have off: "wrap32 (wrap32 (y * w) + x1) = y * w + x1"
        by (simp add: wrap32_id)
      from memset_row[OF fb(2) y x1r(1) span(1,2) fb(3), of color]
      obtain fb' where fb': "memset8 fb (y * w + x1) color len2 = Inr fb'" "length fb' = length fb"
        "\<And>x' y'. 0 \<le> x' \<Longrightarrow> x' < w \<Longrightarrow> 0 \<le> y' \<Longrightarrow> y' < h \<Longrightarrow>
            fb' ! nat (y' * w + x') =
              (if y' = y \<and> x1 \<le> x' \<and> x' < x1 + len2 then color else fb ! nat (y' * w + x'))"
        by blast
      show ?thesis
      proof (rule paintedI[OF fb(1) _ fb'(2)])
        show "rgb_gfx_hline s x y len color = Inr (s\<lparr>s_graphics_framebuffer := Some fb'\<rparr>)"
          using e0 pos off fb'(1) by (simp add: with_fb_def)
      next
        fix x' y'
        assume r: "0 \<le> x'" "x' < s_gfx_width s" "0 \<le> y'" "y' < s_gfx_height s"
        then have "fb' ! nat (y' * w + x') =
              (if y' = y \<and> x1 \<le> x' \<and> x' < x1 + len2 then color else fb ! nat (y' * w + x'))"
          using fb'(3)[of x' y'] by (simp add: w_def h_def)
        moreover have "(x1 \<le> x' \<and> x' < x1 + len2) \<longleftrightarrow> (x \<le> x' \<and> x' < x + len)"
          using l2 r by (auto simp add: x1_def w_def split: if_splits)
        ultimately show "fb' ! nat (y' * s_gfx_width s + x') =
              (case if y' = y \<and> x \<le> x' \<and> x' < x + len then Some color else None of
                 None \<Rightarrow> fb ! nat (y' * s_gfx_width s + x') | Some c \<Rightarrow> c)"
          by (simp add: w_def)
      qed
    qed
  qed
qed


text \<open>A single store at the offset of an in-range pixel.\<close>

lemma store8_pixel:
  fixes w h x0 y0 :: int
  assumes len: "int (length fb) = w * h" and p: "0 \<le> x0" "x0 < w" "0 \<le> y0" "y0 < h"
  shows "\<exists>fb'. store8 fb (y0 * w + x0) v = Inr fb' \<and> length fb' = length fb
          \<and> (\<forall>x' y'. 0 \<le> x' \<and> x' < w \<and> 0 \<le> y' \<and> y' < h \<longrightarrow>
                 fb' ! nat (y' * w + x') =
                   (if x' = x0 \<and> y' = y0 then v else fb ! nat (y' * w + x')))"
proof -
  have o: "0 \<le> y0 * w + x0" "y0 * w + x0 < w * h"
    using pixel_offset_range[OF p] by simp_all
  then have e: "store8 fb (y0 * w + x0) v = Inr (fb[nat (y0 * w + x0) := v])"
    using len by (simp add: store8_def)
  have "fb[nat (y0 * w + x0) := v] ! nat (y' * w + x') =
          (if x' = x0 \<and> y' = y0 then v else fb ! nat (y' * w + x'))"
    if r: "0 \<le> x'" "x' < w" "0 \<le> y'" "y' < h" for x' y'
  proof -
    from pixel_offset_range[OF r] len
    have i: "nat (y' * w + x') < length fb" "0 \<le> y' * w + x'"
      by linarith+
    have "(nat (y0 * w + x0) = nat (y' * w + x')) \<longleftrightarrow> (y0 * w + x0 = y' * w + x')"
      using o(1) i(2) by (rule eq_nat_nat_iff)
    also have "\<dots> \<longleftrightarrow> (y0 = y' \<and> x0 = x')"
      using p r by (intro pixel_offset_inj) auto
    finally show ?thesis
      using i(1) by (auto simp add: nth_list_update)
  qed
  with e show ?thesis by simp
qed

lemma fb_ok_dims_c_int:
  fixes w h :: int
  assumes "0 < w" "0 < h" "c_int (w * h)"
  shows "c_int w" "c_int h"
proof -
  have "w * 1 \<le> w * h" using assms by (intro mult_left_mono) auto
  then show "c_int w" using assms unfolding c_int_def by linarith
  have "1 * h \<le> w * h" using assms by (intro mult_right_mono) auto
  then show "c_int h" using assms unfolding c_int_def by linarith
qed

lemma offset_c_int:
  fixes w h x y :: int
  assumes "0 \<le> x" "x < w" "0 \<le> y" "y < h" "c_int (w * h)"
  shows "wrap32 (wrap32 (y * w) + x) = y * w + x"
proof -
  have "0 \<le> y * w" "0 \<le> y * w + x" "y * w + x < w * h"
    using pixel_offset_range[OF assms(1-4)] by simp_all
  then have "c_int (y * w)" "c_int (y * w + x)"
    using assms(1,5) unfolding c_int_def by linarith+
  then show ?thesis by (simp add: wrap32_id)
qed

lemma rgb_gfx_vline_painted:
  assumes ok: "fb_ok s" and cy: "c_int y" and cl: "c_int len" and nov: "y + len \<le> 2147483647"
  shows "painted s (rgb_gfx_vline s x y len color)
           (\<lambda>x' y'. if x' = x \<and> y \<le> y' \<and> y' < y + len then Some color else None)"
proof -
  define w where "w = s_gfx_width s"
  define h where "h = s_gfx_height s"
  from ok obtain fb where fb: "s_graphics_framebuffer s = Some fb"
    "int (length fb) = w * h" "0 < w" "0 < h" "c_int (w * h)"
    unfolding w_def h_def by (rule fb_okE)
  have ch: "c_int h" using fb_ok_dims_c_int[OF fb(3,4,5)] by simp
  show ?thesis
  proof (cases "x < 0 \<or> x \<ge> w \<or> len \<le> 0")
    case True
    then have "rgb_gfx_vline s x y len color = Inr s"
      using fb by (auto simp add: rgb_gfx_vline_def getter_defs Let_def w_def h_def)
    moreover have "painted s (Inr s)
        (\<lambda>x' y'. if x' = x \<and> y \<le> y' \<and> y' < y + len then Some color else None)"
      using True by (intro painted_noop[OF fb(1)]) (auto simp add: w_def h_def)
    ultimately show ?thesis by simp
  next
    case False
    then have x: "0 \<le> x" "x < w" and lpos: "0 < len" by auto
    define y1 where "y1 = (if y < 0 then 0 else y)"
    define len1 where "len1 = (if y < 0 then wrap32 (len + y) else len)"
    define len2 where "len2 = (if wrap32 (y1 + len1) > h then wrap32 (h - y1) else len1)"
    have l1: "len1 = y + len - y1"
      using cy cl lpos by (auto simp add: len1_def y1_def wrap32_id c_int_def)
    have s1: "wrap32 (y1 + len1) = y + len"
      using l1 cy lpos nov by (simp add: wrap32_id c_int_def)
    have y1r: "0 \<le> y1" "c_int y1"
      using cy by (auto simp add: y1_def c_int_def)
    have "c_int (h - y1)"
      using y1r ch fb(4) by (simp add: c_int_def)
    then have l2: "len2 = (if y + len > h then h else y + len) - y1"
      using l1 s1 by (simp add: len2_def wrap32_id)
    define body where "body = (\<lambda>(i::int) (p, fb). case store8 fb p color of
                                              Inl e \<Rightarrow> Inl e
                                            | Inr fb' \<Rightarrow> Inr (p + w, fb'))"
    have e0: "rgb_gfx_vline s x y len color =
          (if len2 \<le> 0 then Inr s
           else with_fb s
                  (case for_loop_f 0 len2 body (wrap32 (wrap32 (y1 * w) + x), fb) of
                     Inl e \<Rightarrow> Inl e
                   | Inr (p, fb') \<Rightarrow> Inr fb'))"
      using fb(1) False
      unfolding rgb_gfx_vline_def getter_defs Let_def body_def len2_def len1_def y1_def w_def h_def
      by simp
    show ?thesis
    proof (cases "len2 \<le> 0")
      case True
      have "painted s (Inr s)
          (\<lambda>x' y'. if x' = x \<and> y \<le> y' \<and> y' < y + len then Some color else None)"
        using True l2 by (intro painted_noop[OF fb(1)]) (auto simp add: h_def y1_def split: if_splits)
      then show ?thesis using e0 True by simp
    next
      case pos: False
      then have span: "0 \<le> len2" "y1 + len2 \<le> h" "y1 < h"
        using l2 by (auto split: if_splits)
      have off: "wrap32 (wrap32 (y1 * w) + x) = y1 * w + x"
        using x y1r(1) span(3) fb(5) by (intro offset_c_int) auto
      define P where "P = (\<lambda>i (st :: int \<times> u8 list).
          fst st = (y1 + i) * w + x \<and> length (snd st) = length fb
          \<and> (\<forall>x' y'. 0 \<le> x' \<and> x' < w \<and> 0 \<le> y' \<and> y' < h \<longrightarrow>
                snd st ! nat (y' * w + x') =
                  (if x' = x \<and> y1 \<le> y' \<and> y' < y1 + i then color else fb ! nat (y' * w + x'))))"
      have "\<exists>t. for_loop_f 0 len2 body (y1 * w + x, fb) = Inr t \<and> P len2 t"
      proof (rule for_loop_f_rule)
        show "0 \<le> len2" by (rule span)
        show "P 0 (y1 * w + x, fb)" by (auto simp add: P_def)
      next
        fix i :: int and t :: "int \<times> u8 list"
        assume i: "0 \<le> i" "i < len2" and p: "P i t"
        obtain pp b where t: "t = (pp, b)" by (cases t)
        from p t have pp: "pp = (y1 + i) * w + x" and lb: "length b = length fb"
          and nb: "\<And>x' y'. 0 \<le> x' \<Longrightarrow> x' < w \<Longrightarrow> 0 \<le> y' \<Longrightarrow> y' < h \<Longrightarrow>
                b ! nat (y' * w + x') =
                  (if x' = x \<and> y1 \<le> y' \<and> y' < y1 + i then color else fb ! nat (y' * w + x'))"
          by (simp_all add: P_def)
        have row: "0 \<le> y1 + i" "y1 + i < h"
          using i span y1r by simp_all
        from store8_pixel[of b w h x "y1 + i" color] lb fb(2) x row
        obtain b' where b': "store8 b ((y1 + i) * w + x) color = Inr b'" "length b' = length b"
          "\<And>x' y'. 0 \<le> x' \<Longrightarrow> x' < w \<Longrightarrow> 0 \<le> y' \<Longrightarrow> y' < h \<Longrightarrow>
              b' ! nat (y' * w + x') =
                (if x' = x \<and> y' = y1 + i then color else b ! nat (y' * w + x'))"
          by auto
        have "body i t = Inr (pp + w, b')"
          using b'(1) t pp by (simp add: body_def)
        moreover have "P (i + 1) (pp + w, b')"
          unfolding P_def
        proof (intro conjI allI impI)
          show "fst (pp + w, b') = (y1 + (i + 1)) * w + x"
            using pp by (simp add: algebra_simps)
          show "length (snd (pp + w, b')) = length fb"
            using b'(2) lb by simp
        next
          fix x' y'
          assume r: "0 \<le> x' \<and> x' < w \<and> 0 \<le> y' \<and> y' < h"
          then show "snd (pp + w, b') ! nat (y' * w + x') =
                (if x' = x \<and> y1 \<le> y' \<and> y' < y1 + (i + 1) then color
                 else fb ! nat (y' * w + x'))"
            using b'(3)[of x' y'] nb[of x' y'] i by auto
        qed
        ultimately show "\<exists>t'. body i t = Inr t' \<and> P (i + 1) t'"
          by blast
      qed
      then obtain pe fb' where lp: "for_loop_f 0 len2 body (y1 * w + x, fb) = Inr (pe, fb')"
        and l': "length fb' = length fb"
        and n': "\<And>x' y'. 0 \<le> x' \<Longrightarrow> x' < w \<Longrightarrow> 0 \<le> y' \<Longrightarrow> y' < h \<Longrightarrow>
              fb' ! nat (y' * w + x') =
                (if x' = x \<and> y1 \<le> y' \<and> y' < y1 + len2 then color else fb ! nat (y' * w + x'))"
        by (auto simp add: P_def)
      show ?thesis
      proof (rule paintedI[OF fb(1) _ l'])
        show "rgb_gfx_vline s x y len color = Inr (s\<lparr>s_graphics_framebuffer := Some fb'\<rparr>)"
          using e0 pos off lp by (simp add: with_fb_def)
      next
        fix x' y'
        assume r: "0 \<le> x'" "x' < s_gfx_width s" "0 \<le> y'" "y' < s_gfx_height s"
        then have "fb' ! nat (y' * w + x') =
              (if x' = x \<and> y1 \<le> y' \<and> y' < y1 + len2 then color else fb ! nat (y' * w + x'))"
          using n'[of x' y'] by (simp add: w_def h_def)
        moreover have "(y1 \<le> y' \<and> y' < y1 + len2) \<longleftrightarrow> (y \<le> y' \<and> y' < y + len)"
          using l2 r by (auto simp add: y1_def h_def split: if_splits)
        ultimately show "fb' ! nat (y' * s_gfx_width s + x') =
              (case if x' = x \<and> y \<le> y' \<and> y' < y + len then Some color else None of
                 None \<Rightarrow> fb ! nat (y' * s_gfx_width s + x') | Some c \<Rightarrow> c)"
          by (simp add: w_def)
      qed
    qed
  qed
qed


lemma rgb_gfx_rectfill_painted:
  assumes ok: "fb_ok s" and cx: "c_int x" "c_int rw" "x + rw \<le> 2147483647"
    and cy: "c_int y" "c_int rh" "y + rh \<le> 2147483647"
  shows "painted s (rgb_gfx_rectfill s x y rw rh color)
           (\<lambda>x' y'. if x \<le> x' \<and> x' < x + rw \<and> y \<le> y' \<and> y' < y + rh
                    then Some color else None)"
proof -
  define w where "w = s_gfx_width s"
  define h where "h = s_gfx_height s"
  from ok obtain fb where fb: "s_graphics_framebuffer s = Some fb"
    "int (length fb) = w * h" "0 < w" "0 < h" "c_int (w * h)"
    unfolding w_def h_def by (rule fb_okE)
  have cwh: "c_int w" "c_int h" using fb_ok_dims_c_int[OF fb(3,4,5)] by simp_all
  show ?thesis
  proof (cases "rw \<le> 0 \<or> rh \<le> 0")
    case True
    then have "rgb_gfx_rectfill s x y rw rh color = Inr s"
      using fb by (auto simp add: rgb_gfx_rectfill_def getter_defs Let_def)
    moreover have "painted s (Inr s)
        (\<lambda>x' y'. if x \<le> x' \<and> x' < x + rw \<and> y \<le> y' \<and> y' < y + rh then Some color else None)"
      using True by (intro painted_noop[OF fb(1)]) auto
    ultimately show ?thesis by simp
  next
    case False
    then have pos: "0 < rw" "0 < rh" by auto
    define x0 where "x0 = (if x < 0 then 0 else x)"
    define y0 where "y0 = (if y < 0 then 0 else y)"
    define x1 where "x1 = (if wrap32 (x + rw) > w then w else wrap32 (x + rw))"
    define y1 where "y1 = (if wrap32 (y + rh) > h then h else wrap32 (y + rh))"
    define clipped_w where "clipped_w = wrap32 (x1 - x0)"
    define clipped_h where "clipped_h = wrap32 (y1 - y0)"
    have sx: "wrap32 (x + rw) = x + rw" "wrap32 (y + rh) = y + rh"
      using cx cy pos by (simp_all add: wrap32_id c_int_def)
    have x1: "x1 = (if x + rw > w then w else x + rw)" and y1: "y1 = (if y + rh > h then h else y + rh)"
      using sx by (simp_all add: x1_def y1_def)
    have r0: "0 \<le> x0" "0 \<le> y0" by (simp_all add: x0_def y0_def)
    have "c_int (x1 - x0)" "c_int (y1 - y0)"
      using cx cy pos cwh fb(3,4) x1 y1
      by (auto simp add: c_int_def x0_def y0_def split: if_splits)
    then have cl: "clipped_w = x1 - x0" "clipped_h = y1 - y0"
      by (simp_all add: clipped_w_def clipped_h_def wrap32_id)
    define body where
      "body = (\<lambda>row fb. memset8 fb (wrap32 (wrap32 (row * w) + x0)) color clipped_w)"
    have e0: "rgb_gfx_rectfill s x y rw rh color =
          (if clipped_w \<le> 0 \<or> clipped_h \<le> 0 then Inr s
           else with_fb s (for_loop_f y0 y1 body fb))"
      using fb(1) False
      unfolding rgb_gfx_rectfill_def getter_defs Let_def body_def clipped_w_def clipped_h_def
        x0_def y0_def x1_def y1_def w_def h_def
      by simp
    show ?thesis
    proof (cases "clipped_w \<le> 0 \<or> clipped_h \<le> 0")
      case True
      have "painted s (Inr s)
          (\<lambda>x' y'. if x \<le> x' \<and> x' < x + rw \<and> y \<le> y' \<and> y' < y + rh then Some color else None)"
        using True cl x1 y1
        by (intro painted_noop[OF fb(1)])
          (auto simp add: w_def h_def x0_def y0_def split: if_splits)
      then show ?thesis using e0 True by simp
    next
      case nz: False
      then have span: "0 \<le> clipped_w" "x0 + clipped_w \<le> w" "y0 \<le> y1" "y1 \<le> h"
        using cl x1 y1 by (auto split: if_splits)
      define P where "P = (\<lambda>r (b :: u8 list). length b = length fb
          \<and> (\<forall>x' y'. 0 \<le> x' \<and> x' < w \<and> 0 \<le> y' \<and> y' < h \<longrightarrow>
                b ! nat (y' * w + x') =
                  (if y0 \<le> y' \<and> y' < r \<and> x0 \<le> x' \<and> x' < x0 + clipped_w then color
                   else fb ! nat (y' * w + x'))))"
      have "\<exists>t. for_loop_f y0 y1 body fb = Inr t \<and> P y1 t"
      proof (rule for_loop_f_rule)
        show "y0 \<le> y1" by (rule span)
        show "P y0 fb" by (auto simp add: P_def)
      next
        fix r :: int and b :: "u8 list"
        assume r: "y0 \<le> r" "r < y1" and p: "P r b"
        from p have lb: "length b = length fb"
          and nb: "\<And>x' y'. 0 \<le> x' \<Longrightarrow> x' < w \<Longrightarrow> 0 \<le> y' \<Longrightarrow> y' < h \<Longrightarrow>
                b ! nat (y' * w + x') =
                  (if y0 \<le> y' \<and> y' < r \<and> x0 \<le> x' \<and> x' < x0 + clipped_w then color
                   else fb ! nat (y' * w + x'))"
          by (simp_all add: P_def)
        have row: "0 \<le> r" "r < h" using r r0 span by simp_all
        have x0w: "x0 < w" using nz span by simp
        have off: "wrap32 (wrap32 (r * w) + x0) = r * w + x0"
          using r0 x0w row fb(5) by (intro offset_c_int) auto
        from memset_row[of b w h r x0 clipped_w color] lb fb(2,3) row r0 span
        obtain b' where b': "memset8 b (r * w + x0) color clipped_w = Inr b'"
          "length b' = length b"
          "\<And>x' y'. 0 \<le> x' \<Longrightarrow> x' < w \<Longrightarrow> 0 \<le> y' \<Longrightarrow> y' < h \<Longrightarrow>
              b' ! nat (y' * w + x') =
                (if y' = r \<and> x0 \<le> x' \<and> x' < x0 + clipped_w then color
                 else b ! nat (y' * w + x'))"
          by auto
        have "body r b = Inr b'"
          using b'(1) off by (simp add: body_def)
        moreover have "P (r + 1) b'"
          unfolding P_def
        proof (intro conjI allI impI)
          show "length b' = length fb" using b'(2) lb by simp
        next
          fix x' y'
          assume "0 \<le> x' \<and> x' < w \<and> 0 \<le> y' \<and> y' < h"
          then show "b' ! nat (y' * w + x') =
                (if y0 \<le> y' \<and> y' < r + 1 \<and> x0 \<le> x' \<and> x' < x0 + clipped_w then color
                 else fb ! nat (y' * w + x'))"
            using b'(3)[of x' y'] nb[of x' y'] r by auto
        qed
        ultimately show "\<exists>t'. body r b = Inr t' \<and> P (r + 1) t'"
          by blast
      qed
      then obtain fb' where lp: "for_loop_f y0 y1 body fb = Inr fb'"
        and l': "length fb' = length fb"
        and n': "\<And>x' y'. 0 \<le> x' \<Longrightarrow> x' < w \<Longrightarrow> 0 \<le> y' \<Longrightarrow> y' < h \<Longrightarrow>
              fb' ! nat (y' * w + x') =
                (if y0 \<le> y' \<and> y' < y1 \<and> x0 \<le> x' \<and> x' < x0 + clipped_w then color
                 else fb ! nat (y' * w + x'))"
        by (auto simp add: P_def)
      show ?thesis
      proof (rule paintedI[OF fb(1) _ l'])
        show "rgb_gfx_rectfill s x y rw rh color = Inr (s\<lparr>s_graphics_framebuffer := Some fb'\<rparr>)"
          using e0 nz lp by (simp add: with_fb_def)
      next
        fix x' y'
        assume r: "0 \<le> x'" "x' < s_gfx_width s" "0 \<le> y'" "y' < s_gfx_height s"
        then have "fb' ! nat (y' * w + x') =
              (if y0 \<le> y' \<and> y' < y1 \<and> x0 \<le> x' \<and> x' < x0 + clipped_w then color
               else fb ! nat (y' * w + x'))"
          using n'[of x' y'] by (simp add: w_def h_def)
        moreover have "(y0 \<le> y' \<and> y' < y1 \<and> x0 \<le> x' \<and> x' < x0 + clipped_w) \<longleftrightarrow>
              (x \<le> x' \<and> x' < x + rw \<and> y \<le> y' \<and> y' < y + rh)"
          using cl x1 y1 r by (auto simp add: x0_def y0_def w_def h_def split: if_splits)
        ultimately show "fb' ! nat (y' * s_gfx_width s + x') =
              (case if x \<le> x' \<and> x' < x + rw \<and> y \<le> y' \<and> y' < y + rh then Some color else None of
                 None \<Rightarrow> fb ! nat (y' * s_gfx_width s + x') | Some c \<Rightarrow> c)"
          by (simp add: w_def)
      qed
    qed
  qed
qed


text \<open>Primitives in sequence.\<close>

lemma painted_fb_ok:
  assumes "fb_ok s" and "painted s (Inr s1) f"
  shows "fb_ok s1" "s_gfx_width s1 = s_gfx_width s" "s_gfx_height s1 = s_gfx_height s"
  using assms unfolding fb_ok_def painted_def by auto

lemma painted_bind:
  assumes 1: "painted s r f" and 2: "\<And>s1. r = Inr s1 \<Longrightarrow> painted s1 (k s1) g"
  shows "painted s (bind_f r k)
           (\<lambda>x y. case g x y of Some c \<Rightarrow> Some c | None \<Rightarrow> f x y)"
proof -
  from 1 obtain fb fb1 where a: "s_graphics_framebuffer s = Some fb"
    "r = Inr (s\<lparr>s_graphics_framebuffer := Some fb1\<rparr>)" "length fb1 = length fb"
    "\<And>x y. 0 \<le> x \<Longrightarrow> x < s_gfx_width s \<Longrightarrow> 0 \<le> y \<Longrightarrow> y < s_gfx_height s \<Longrightarrow>
        fb1 ! nat (y * s_gfx_width s + x) =
          (case f x y of None \<Rightarrow> fb ! nat (y * s_gfx_width s + x) | Some c \<Rightarrow> c)"
    unfolding painted_def by blast
  define s1 where "s1 = s\<lparr>s_graphics_framebuffer := Some fb1\<rparr>"
  have s1: "s_graphics_framebuffer s1 = Some fb1" "s_gfx_width s1 = s_gfx_width s"
    "s_gfx_height s1 = s_gfx_height s"
    by (simp_all add: s1_def)
  from 2[of s1] a(2) have "painted s1 (k s1) g" by (simp add: s1_def)
  then obtain fbx fb2 where b0: "s_graphics_framebuffer s1 = Some fbx"
    "k s1 = Inr (s1\<lparr>s_graphics_framebuffer := Some fb2\<rparr>)"
    "length fb2 = length fbx"
    "\<forall>x y. 0 \<le> x \<and> x < s_gfx_width s1 \<and> 0 \<le> y \<and> y < s_gfx_height s1 \<longrightarrow>
        fb2 ! nat (y * s_gfx_width s1 + x) =
          (case g x y of None \<Rightarrow> fbx ! nat (y * s_gfx_width s1 + x) | Some c \<Rightarrow> c)"
    unfolding painted_def by blast
  have fx: "fbx = fb1" using b0(1) s1(1) by simp
  have b: "k s1 = Inr (s\<lparr>s_graphics_framebuffer := Some fb2\<rparr>)"
    "length fb2 = length fb1"
    "\<And>x y. 0 \<le> x \<Longrightarrow> x < s_gfx_width s \<Longrightarrow> 0 \<le> y \<Longrightarrow> y < s_gfx_height s \<Longrightarrow>
        fb2 ! nat (y * s_gfx_width s + x) =
          (case g x y of None \<Rightarrow> fb1 ! nat (y * s_gfx_width s + x) | Some c \<Rightarrow> c)"
    using b0(2,3,4) unfolding fx s1(2,3) by (simp_all add: s1_def)
  show ?thesis
  proof (rule paintedI[OF a(1), of _ fb2])
    show "bind_f r k = Inr (s\<lparr>s_graphics_framebuffer := Some fb2\<rparr>)"
      using a(2) b(1) by (simp add: bind_f_def s1_def)
    show "length fb2 = length fb" using a(3) b(2) by simp
  next
    fix x y
    assume r: "0 \<le> x" "x < s_gfx_width s" "0 \<le> y" "y < s_gfx_height s"
    show "fb2 ! nat (y * s_gfx_width s + x) =
          (case case g x y of None \<Rightarrow> f x y | Some c \<Rightarrow> Some c of
             None \<Rightarrow> fb ! nat (y * s_gfx_width s + x) | Some c \<Rightarrow> c)"
      using a(4)[OF r] b(3)[OF r] by (simp split: option.splits)
  qed
qed

lemma outline_cases:
  fixes x y rw rh x' y' :: int
  assumes pos: "0 < rw" "0 < rh"
  shows "(case (case (if rh > 2 then
         (case (if x' = x + rw - 1 \<and> y + 1 \<le> y' \<and> y' < y + 1 + (rh - 2)
                    then Some color else None) of Some c \<Rightarrow> Some c | None \<Rightarrow> (if x' = x \<and> y + 1 \<le> y' \<and> y' < y + 1 + (rh - 2) then Some color else None)) else None) of Some c \<Rightarrow> Some c | None \<Rightarrow> (if y' = y + rh - 1 \<and> x \<le> x' \<and> x' < x + rw then Some color else None)) of
             Some c \<Rightarrow> Some c | None \<Rightarrow> (if y' = y \<and> x \<le> x' \<and> x' < x + rw then Some color else None)) =
          (if x \<le> x' \<and> x' < x + rw \<and> y \<le> y' \<and> y' < y + rh
               \<and> (x' = x \<or> x' = x + rw - 1 \<or> y' = y \<or> y' = y + rh - 1)
           then Some color else None)"
proof -
  have "(x \<le> x' \<and> x' < x + rw \<and> y \<le> y' \<and> y' < y + rh
               \<and> (x' = x \<or> x' = x + rw - 1 \<or> y' = y \<or> y' = y + rh - 1))
     \<longleftrightarrow> ((y' = y \<and> x \<le> x' \<and> x' < x + rw) \<or> (y' = y + rh - 1 \<and> x \<le> x' \<and> x' < x + rw)
          \<or> (rh > 2 \<and> x' = x \<and> y + 1 \<le> y' \<and> y' < y + 1 + (rh - 2))
          \<or> (rh > 2 \<and> x' = x + rw - 1 \<and> y + 1 \<le> y' \<and> y' < y + 1 + (rh - 2)))"
    using pos by arith
  then show ?thesis
    by (simp split: option.splits if_splits)
qed


lemma rgb_gfx_rect_painted:
  assumes ok: "fb_ok s" and cx: "c_int x" "c_int rw" "x + rw \<le> 2147483647"
    and cy: "c_int y" "c_int rh" "y + rh \<le> 2147483647"
  shows "painted s (rgb_gfx_rect s x y rw rh color)
           (\<lambda>x' y'. if x \<le> x' \<and> x' < x + rw \<and> y \<le> y' \<and> y' < y + rh
                       \<and> (x' = x \<or> x' = x + rw - 1 \<or> y' = y \<or> y' = y + rh - 1)
                    then Some color else None)"
proof (cases "rw \<le> 0 \<or> rh \<le> 0")
  case True
  from ok obtain fb where fb: "s_graphics_framebuffer s = Some fb"
    by (rule fb_okE)
  have "rgb_gfx_rect s x y rw rh color = Inr s"
    using True by (simp add: rgb_gfx_rect_def)
  moreover have "painted s (Inr s)
      (\<lambda>x' y'. if x \<le> x' \<and> x' < x + rw \<and> y \<le> y' \<and> y' < y + rh
                   \<and> (x' = x \<or> x' = x + rw - 1 \<or> y' = y \<or> y' = y + rh - 1)
                then Some color else None)"
    using True by (intro painted_noop[OF fb]) auto
  ultimately show ?thesis by simp
next
  case False
  then have pos: "0 < rw" "0 < rh" by auto
  have w1: "wrap32 (wrap32 (y + rh) - 1) = y + rh - 1" "wrap32 (y + 1) = y + 1"
    "wrap32 (rh - 2) = rh - 2" "wrap32 (wrap32 (x + rw) - 1) = x + rw - 1"
    using cx cy pos by (simp_all add: wrap32_id c_int_def)
  have c: "c_int (y + 1)" "c_int (rh - 2)" "y + 1 + (rh - 2) \<le> 2147483647"
    using cy pos by (simp_all add: c_int_def)
  define top where "top = (\<lambda>x' y'. if y' = y \<and> x \<le> x' \<and> x' < x + rw then Some color else None)"
  define bot where
    "bot = (\<lambda>x' y'. if y' = y + rh - 1 \<and> x \<le> x' \<and> x' < x + rw then Some color else None)"
  define lft where
    "lft = (\<lambda>x' y'. if x' = x \<and> y + 1 \<le> y' \<and> y' < y + 1 + (rh - 2) then Some color else None)"
  define rgt where
    "rgt = (\<lambda>x' y'. if x' = x + rw - 1 \<and> y + 1 \<le> y' \<and> y' < y + 1 + (rh - 2)
                    then Some color else None)"
  define sides where "sides = (\<lambda>s2. if rh > 2 then
            bind_f (rgb_gfx_vline s2 x (y + 1) (rh - 2) color) (\<lambda>s3.
              rgb_gfx_vline s3 (x + rw - 1) (y + 1) (rh - 2) color)
          else Inr s2)"
  define sidesf where "sidesf = (\<lambda>x' y'. if rh > 2 then
         (case rgt x' y' of Some c \<Rightarrow> Some c | None \<Rightarrow> lft x' y') else None)"
  have e: "rgb_gfx_rect s x y rw rh color =
        bind_f (rgb_gfx_hline s x y rw color) (\<lambda>s1.
          bind_f (rgb_gfx_hline s1 x (y + rh - 1) rw color) sides)"
    using False unfolding rgb_gfx_rect_def sides_def w1 by simp
  have sd: "painted s2 (sides s2) sidesf" if ok2: "fb_ok s2" for s2
  proof (cases "rh > 2")
    case True
    have "painted s2 (bind_f (rgb_gfx_vline s2 x (y + 1) (rh - 2) color) (\<lambda>s3.
              rgb_gfx_vline s3 (x + rw - 1) (y + 1) (rh - 2) color))
            (\<lambda>x' y'. case rgt x' y' of Some c \<Rightarrow> Some c | None \<Rightarrow> lft x' y')"
    proof (rule painted_bind)
      show "painted s2 (rgb_gfx_vline s2 x (y + 1) (rh - 2) color) lft"
        unfolding lft_def by (rule rgb_gfx_vline_painted[OF ok2 c])
    next
      fix s3
      assume "rgb_gfx_vline s2 x (y + 1) (rh - 2) color = Inr s3"
      then have "painted s2 (Inr s3) lft"
        using rgb_gfx_vline_painted[OF ok2 c, of x color] by (simp add: lft_def)
      then have "fb_ok s3" using ok2 by (rule painted_fb_ok(1)[rotated])
      then show "painted s3 (rgb_gfx_vline s3 (x + rw - 1) (y + 1) (rh - 2) color) rgt"
        unfolding rgt_def by (rule rgb_gfx_vline_painted[OF _ c])
    qed
    then show ?thesis using True by (simp add: sides_def sidesf_def)
  next
    case False
    from ok2 obtain fb2 where "s_graphics_framebuffer s2 = Some fb2" by (rule fb_okE)
    then have "painted s2 (Inr s2) (\<lambda>x' y'. None)"
      by (rule painted_noop) simp
    then show ?thesis using False by (simp add: sides_def sidesf_def)
  qed
  have "painted s (rgb_gfx_rect s x y rw rh color)
          (\<lambda>x' y'. case (case sidesf x' y' of Some c \<Rightarrow> Some c | None \<Rightarrow> bot x' y') of
                      Some c \<Rightarrow> Some c | None \<Rightarrow> top x' y')"
    unfolding e
  proof (rule painted_bind)
    show "painted s (rgb_gfx_hline s x y rw color) top"
      unfolding top_def by (rule rgb_gfx_hline_painted[OF ok cx])
  next
    fix s1
    assume "rgb_gfx_hline s x y rw color = Inr s1"
    then have "painted s (Inr s1) top"
      using rgb_gfx_hline_painted[OF ok cx, of y color] by (simp add: top_def)
    then have ok1: "fb_ok s1" using ok by (rule painted_fb_ok(1)[rotated])
    show "painted s1 (bind_f (rgb_gfx_hline s1 x (y + rh - 1) rw color) sides)
            (\<lambda>x' y'. case sidesf x' y' of Some c \<Rightarrow> Some c | None \<Rightarrow> bot x' y')"
    proof (rule painted_bind)
      show "painted s1 (rgb_gfx_hline s1 x (y + rh - 1) rw color) bot"
        unfolding bot_def by (rule rgb_gfx_hline_painted[OF ok1 cx])
    next
      fix s2
      assume "rgb_gfx_hline s1 x (y + rh - 1) rw color = Inr s2"
      then have "painted s1 (Inr s2) bot"
        using rgb_gfx_hline_painted[OF ok1 cx, of "y + rh - 1" color] by (simp add: bot_def)
      then have "fb_ok s2" using ok1 by (rule painted_fb_ok(1)[rotated])
      then show "painted s2 (sides s2) sidesf" by (rule sd)
    qed
  qed
  then show ?thesis
  proof (rule painted_cong)
    fix x' y' :: int
    show "(case (case sidesf x' y' of Some c \<Rightarrow> Some c | None \<Rightarrow> bot x' y') of
             Some c \<Rightarrow> Some c | None \<Rightarrow> top x' y') =
          (if x \<le> x' \<and> x' < x + rw \<and> y \<le> y' \<and> y' < y + rh
               \<and> (x' = x \<or> x' = x + rw - 1 \<or> y' = y \<or> y' = y + rh - 1)
           then Some color else None)"
      unfolding sidesf_def top_def bot_def lft_def rgt_def by (rule outline_cases[OF pos])
  qed
qed


text \<open>The blits.\<close>

lemma wrap32_add_in_range:
  assumes "c_int a" "0 \<le> k" "c_int k" "c_int w"
  shows "(0 \<le> wrap32 (a + k) \<and> wrap32 (a + k) < w) \<longleftrightarrow> (0 \<le> a + k \<and> a + k < w)"
    and "0 \<le> a + k \<Longrightarrow> a + k < w \<Longrightarrow> wrap32 (a + k) = a + k"
proof -
  show "wrap32 (a + k) = a + k" if "0 \<le> a + k" "a + k < w"
    using that assms by (intro wrap32_id) (simp add: c_int_def)
  show "(0 \<le> wrap32 (a + k) \<and> wrap32 (a + k) < w) \<longleftrightarrow> (0 \<le> a + k \<and> a + k < w)"
  proof (cases "a + k \<le> 2147483647")
    case True
    then have "wrap32 (a + k) = a + k"
      using assms by (intro wrap32_id) (simp add: c_int_def)
    then show ?thesis by simp
  next
    case False
    then have r: "4294967296 \<le> a + k + 2147483648" "a + k + 2147483648 < 2 * 4294967296"
      using assms by (simp_all add: c_int_def)
    have "(a + k + 2147483648) mod 4294967296 = a + k + 2147483648 - 4294967296"
      using r by (simp add: mod_pos_geq)
    then have "wrap32 (a + k) < 0"
      using r assms by (simp add: wrap32_def c_int_def)
    then show ?thesis using False assms by (simp add: c_int_def)
  qed
qed

lemma blit_row:
  fixes w h x dy sw t :: int
  assumes len: "int (length fb) = w * h" and geo: "0 < w" "c_int w" "0 \<le> dy" "dy < h"
    and cx: "c_int x" "c_int sw" "0 \<le> sw"
  shows "\<exists>fb'. for_loop_f 0 sw (\<lambda>sx fb. blit_pixel w x (dy * w) t sx (px sx) fb) fb = Inr fb'
          \<and> length fb' = length fb
          \<and> (\<forall>x' y'. 0 \<le> x' \<and> x' < w \<and> 0 \<le> y' \<and> y' < h \<longrightarrow>
                 fb' ! nat (y' * w + x') =
                   (if y' = dy \<and> x \<le> x' \<and> x' < x + sw
                        \<and> (t < 0 \<or> uint (px (x' - x)) \<noteq> t mod 256)
                    then px (x' - x) else fb ! nat (y' * w + x')))"
proof -
  define P where "P = (\<lambda>k (b :: u8 list). length b = length fb
      \<and> (\<forall>x' y'. 0 \<le> x' \<and> x' < w \<and> 0 \<le> y' \<and> y' < h \<longrightarrow>
            b ! nat (y' * w + x') =
              (if y' = dy \<and> x \<le> x' \<and> x' < x + k
                   \<and> (t < 0 \<or> uint (px (x' - x)) \<noteq> t mod 256)
               then px (x' - x) else fb ! nat (y' * w + x'))))"
  have "\<exists>b. for_loop_f 0 sw (\<lambda>sx fb. blit_pixel w x (dy * w) t sx (px sx) fb) fb = Inr b \<and> P sw b"
  proof (rule for_loop_f_rule)
    show "0 \<le> sw" by (rule cx)
    show "P 0 fb" by (auto simp add: P_def)
  next
    fix k :: int and b :: "u8 list"
    assume k: "0 \<le> k" "k < sw" and p: "P k b"
    from p have lb: "length b = length fb"
      and nb: "\<And>x' y'. 0 \<le> x' \<Longrightarrow> x' < w \<Longrightarrow> 0 \<le> y' \<Longrightarrow> y' < h \<Longrightarrow>
            b ! nat (y' * w + x') =
              (if y' = dy \<and> x \<le> x' \<and> x' < x + k
                   \<and> (t < 0 \<or> uint (px (x' - x)) \<noteq> t mod 256)
               then px (x' - x) else fb ! nat (y' * w + x'))"
      by (simp_all add: P_def)
    have ck: "c_int k" using k cx by (simp add: c_int_def)
    note wr = wrap32_add_in_range[OF cx(1) k(1) ck geo(2)]
    show "\<exists>b'. blit_pixel w x (dy * w) t k (px k) b = Inr b' \<and> P (k + 1) b'"
    proof (cases "0 \<le> x + k \<and> x + k < w \<and> (t < 0 \<or> uint (px k) \<noteq> t mod 256)")
      case True
      then have dx: "wrap32 (x + k) = x + k" using wr(2) by simp
      from store8_pixel[of b w h "x + k" dy "px k"] lb len geo True
      obtain b' where b': "store8 b (dy * w + (x + k)) (px k) = Inr b'" "length b' = length b"
        "\<And>x' y'. 0 \<le> x' \<Longrightarrow> x' < w \<Longrightarrow> 0 \<le> y' \<Longrightarrow> y' < h \<Longrightarrow>
            b' ! nat (y' * w + x') =
              (if x' = x + k \<and> y' = dy then px k else b ! nat (y' * w + x'))"
        by auto
      have "blit_pixel w x (dy * w) t k (px k) b = Inr b'"
        using True dx b'(1) by (auto simp add: blit_pixel_def Let_def)
      moreover have "P (k + 1) b'"
        unfolding P_def
      proof (intro conjI allI impI)
        show "length b' = length fb" using b'(2) lb by simp
      next
        fix x' y'
        assume r: "0 \<le> x' \<and> x' < w \<and> 0 \<le> y' \<and> y' < h"
        show "b' ! nat (y' * w + x') =
              (if y' = dy \<and> x \<le> x' \<and> x' < x + (k + 1)
                   \<and> (t < 0 \<or> uint (px (x' - x)) \<noteq> t mod 256)
               then px (x' - x) else fb ! nat (y' * w + x'))"
        proof (cases "x' = x + k \<and> y' = dy")
          case hit: True
          then have "x' - x = k" by simp
          then show ?thesis using b'(3)[of x' y'] r hit True k by auto
        next
          case miss: False
          then have "(y' = dy \<and> x \<le> x' \<and> x' < x + (k + 1)) \<longleftrightarrow> (y' = dy \<and> x \<le> x' \<and> x' < x + k)"
            by auto
          then show ?thesis using b'(3)[of x' y'] nb[of x' y'] r miss by auto
        qed
      qed
      ultimately show ?thesis by blast
    next
      case False
      have "blit_pixel w x (dy * w) t k (px k) b = Inr b"
        using False wr by (auto simp add: blit_pixel_def Let_def)
      moreover have "P (k + 1) b"
        unfolding P_def
      proof (intro conjI allI impI)
        show "length b = length fb" by (rule lb)
      next
        fix x' y'
        assume r: "0 \<le> x' \<and> x' < w \<and> 0 \<le> y' \<and> y' < h"
        have "(y' = dy \<and> x \<le> x' \<and> x' < x + (k + 1)
                 \<and> (t < 0 \<or> uint (px (x' - x)) \<noteq> t mod 256))
              \<longleftrightarrow> (y' = dy \<and> x \<le> x' \<and> x' < x + k
                 \<and> (t < 0 \<or> uint (px (x' - x)) \<noteq> t mod 256))"
        proof (cases "x' = x + k")
          case True
          then have "x' - x = k" by simp
          then show ?thesis using False True r by auto
        next
          case False
          then show ?thesis by auto
        qed
        then show "b ! nat (y' * w + x') =
              (if y' = dy \<and> x \<le> x' \<and> x' < x + (k + 1)
                   \<and> (t < 0 \<or> uint (px (x' - x)) \<noteq> t mod 256)
               then px (x' - x) else fb ! nat (y' * w + x'))"
          using nb[of x' y'] r by simp
      qed
      ultimately show ?thesis by blast
    qed
  qed
  then show ?thesis by (auto simp add: P_def)
qed


lemma blit_rows:
  fixes w h x y sw sh t :: int
  assumes len: "int (length fb) = w * h" and geo: "0 < w" "0 < h" "c_int (w * h)"
    and cx: "c_int x" "c_int sw" "0 \<le> sw" and cy: "c_int y" "c_int sh" "0 \<le> sh"
  shows "\<exists>fb'. for_loop_f 0 sh
                 (\<lambda>sy fb. if wrap32 (y + sy) < 0 \<or> wrap32 (y + sy) \<ge> h then Inr fb
                           else for_loop_f 0 sw
                                  (\<lambda>sx fb. blit_pixel w x (wrap32 (wrap32 (y + sy) * w)) t sx
                                              (src sx sy) fb) fb)
                 fb = Inr fb'
          \<and> length fb' = length fb
          \<and> (\<forall>x' y'. 0 \<le> x' \<and> x' < w \<and> 0 \<le> y' \<and> y' < h \<longrightarrow>
                 fb' ! nat (y' * w + x') =
                   (case blit_paint src x y sw sh t x' y' of
                      None \<Rightarrow> fb ! nat (y' * w + x') | Some c \<Rightarrow> c))"
proof -
  have cwh: "c_int w" "c_int h" using fb_ok_dims_c_int[OF geo] by simp_all
  define body where "body = (\<lambda>sy fb. if wrap32 (y + sy) < 0 \<or> wrap32 (y + sy) \<ge> h then Inr fb
                           else for_loop_f 0 sw
                                  (\<lambda>sx fb. blit_pixel w x (wrap32 (wrap32 (y + sy) * w)) t sx
                                              (src sx sy) fb) fb)"
  define P where "P = (\<lambda>r (b :: u8 list). length b = length fb
      \<and> (\<forall>x' y'. 0 \<le> x' \<and> x' < w \<and> 0 \<le> y' \<and> y' < h \<longrightarrow>
            b ! nat (y' * w + x') =
              (case blit_paint src x y sw r t x' y' of
                 None \<Rightarrow> fb ! nat (y' * w + x') | Some c \<Rightarrow> c)))"
  have "\<exists>b. for_loop_f 0 sh body fb = Inr b \<and> P sh b"
  proof (rule for_loop_f_rule)
    show "0 \<le> sh" by (rule cy)
    show "P 0 fb" by (auto simp add: P_def blit_paint_def)
  next
    fix r :: int and b :: "u8 list"
    assume r: "0 \<le> r" "r < sh" and p: "P r b"
    from p have lb: "length b = length fb"
      and nb: "\<And>x' y'. 0 \<le> x' \<Longrightarrow> x' < w \<Longrightarrow> 0 \<le> y' \<Longrightarrow> y' < h \<Longrightarrow>
            b ! nat (y' * w + x') =
              (case blit_paint src x y sw r t x' y' of
                 None \<Rightarrow> fb ! nat (y' * w + x') | Some c \<Rightarrow> c)"
      by (simp_all add: P_def)
    have cr: "c_int r" using r cy by (simp add: c_int_def)
    note wr = wrap32_add_in_range[OF cy(1) r(1) cr cwh(2)]
    show "\<exists>b'. body r b = Inr b' \<and> P (r + 1) b'"
    proof (cases "0 \<le> y + r \<and> y + r < h")
      case False
      then have "body r b = Inr b"
        using wr(1) by (auto simp add: body_def)
      moreover have "P (r + 1) b"
        unfolding P_def
      proof (intro conjI allI impI)
        show "length b = length fb" by (rule lb)
      next
        fix x' y'
        assume q: "0 \<le> x' \<and> x' < w \<and> 0 \<le> y' \<and> y' < h"
        then have "y' \<noteq> y + r" using False by auto
        then have "blit_paint src x y sw (r + 1) t x' y' = blit_paint src x y sw r t x' y'"
          by (auto simp add: blit_paint_def)
        then show "b ! nat (y' * w + x') =
              (case blit_paint src x y sw (r + 1) t x' y' of
                 None \<Rightarrow> fb ! nat (y' * w + x') | Some c \<Rightarrow> c)"
          using nb[of x' y'] q by simp
      qed
      ultimately show ?thesis by blast
    next
      case True
      then have dy: "wrap32 (y + r) = y + r" using wr(2) by simp
      have "0 \<le> (y + r) * w" "(y + r) * w + w \<le> w * h"
        using pixel_offset_range[of 0 w "y + r" h] True geo by simp_all
      then have "c_int ((y + r) * w)" using geo unfolding c_int_def by linarith
      then have dr: "wrap32 ((y + r) * w) = (y + r) * w" by (rule wrap32_id)
      from blit_row[of b w h "y + r" x sw t "\<lambda>sx. src sx r"] lb len geo(1) cwh(1) True cx
      obtain b' where b': "for_loop_f 0 sw
            (\<lambda>sx fb. blit_pixel w x ((y + r) * w) t sx (src sx r) fb) b = Inr b'"
        "length b' = length b"
        "\<And>x' y'. 0 \<le> x' \<Longrightarrow> x' < w \<Longrightarrow> 0 \<le> y' \<Longrightarrow> y' < h \<Longrightarrow>
            b' ! nat (y' * w + x') =
              (if y' = y + r \<and> x \<le> x' \<and> x' < x + sw
                   \<and> (t < 0 \<or> uint (src (x' - x) r) \<noteq> t mod 256)
               then src (x' - x) r else b ! nat (y' * w + x'))"
        by auto
      have "body r b = Inr b'"
        using True dy dr b'(1) by (simp add: body_def)
      moreover have "P (r + 1) b'"
        unfolding P_def
      proof (intro conjI allI impI)
        show "length b' = length fb" using b'(2) lb by simp
      next
        fix x' y'
        assume q: "0 \<le> x' \<and> x' < w \<and> 0 \<le> y' \<and> y' < h"
        show "b' ! nat (y' * w + x') =
              (case blit_paint src x y sw (r + 1) t x' y' of
                 None \<Rightarrow> fb ! nat (y' * w + x') | Some c \<Rightarrow> c)"
        proof (cases "y' = y + r")
          case True
          then have yr: "y' - y = r" by simp
          have "blit_paint src x y sw r t x' y' = None"
            using True by (simp add: blit_paint_def)
          then have old: "b ! nat (y' * w + x') = fb ! nat (y' * w + x')"
            using nb[of x' y'] q by simp
          have "b' ! nat (y' * w + x') =
              (if x \<le> x' \<and> x' < x + sw \<and> (t < 0 \<or> uint (src (x' - x) r) \<noteq> t mod 256)
               then src (x' - x) r else fb ! nat (y' * w + x'))"
            using b'(3)[of x' y'] q old True by auto
          moreover have "blit_paint src x y sw (r + 1) t x' y' =
              (if x \<le> x' \<and> x' < x + sw \<and> (t < 0 \<or> uint (src (x' - x) r) \<noteq> t mod 256)
               then Some (src (x' - x) r) else None)"
            using True yr r by (auto simp add: blit_paint_def)
          ultimately show ?thesis by auto
        next
          case False
          then have "blit_paint src x y sw (r + 1) t x' y' = blit_paint src x y sw r t x' y'"
            by (auto simp add: blit_paint_def)
          then show ?thesis
            using b'(3)[of x' y'] nb[of x' y'] q False by simp
        qed
      qed
      ultimately show ?thesis by blast
    qed
  qed
  then show ?thesis unfolding body_def by (auto simp add: P_def)
qed

lemma blit_painted_aux:
  assumes ok: "fb_ok s" and cx: "c_int x" "c_int sw" and cy: "c_int y" "c_int sh"
    and fb: "s_graphics_framebuffer s = Some fb"
    and e: "sw \<le> 0 \<or> sh \<le> 0 \<Longrightarrow> r = Inr s"
    and l: "0 < sw \<Longrightarrow> 0 < sh \<Longrightarrow> r = with_fb s (for_loop_f 0 sh
                 (\<lambda>sy fb. if wrap32 (y + sy) < 0 \<or> wrap32 (y + sy) \<ge> s_gfx_height s then Inr fb
                           else for_loop_f 0 sw
                                  (\<lambda>sx fb. blit_pixel (s_gfx_width s) x
                                              (wrap32 (wrap32 (y + sy) * s_gfx_width s)) t sx
                                              (src sx sy) fb) fb)
                 fb)"
  shows "painted s r (blit_paint src x y sw sh t)"
proof (cases "sw \<le> 0 \<or> sh \<le> 0")
  case True
  have "painted s (Inr s) (blit_paint src x y sw sh t)"
    using True by (intro painted_noop[OF fb]) (auto simp add: blit_paint_def)
  then show ?thesis using e[OF True] by simp
next
  case False
  from ok fb have g: "int (length fb) = s_gfx_width s * s_gfx_height s"
    "0 < s_gfx_width s" "0 < s_gfx_height s" "c_int (s_gfx_width s * s_gfx_height s)"
    unfolding fb_ok_def by auto
  from blit_rows[OF g cx _ cy, of t src] False
  obtain fb' where fb': "for_loop_f 0 sh
                 (\<lambda>sy fb. if wrap32 (y + sy) < 0 \<or> wrap32 (y + sy) \<ge> s_gfx_height s then Inr fb
                           else for_loop_f 0 sw
                                  (\<lambda>sx fb. blit_pixel (s_gfx_width s) x
                                              (wrap32 (wrap32 (y + sy) * s_gfx_width s)) t sx
                                              (src sx sy) fb) fb)
                 fb = Inr fb'"
    "length fb' = length fb"
    "\<And>x' y'. 0 \<le> x' \<Longrightarrow> x' < s_gfx_width s \<Longrightarrow> 0 \<le> y' \<Longrightarrow> y' < s_gfx_height s \<Longrightarrow>
        fb' ! nat (y' * s_gfx_width s + x') =
          (case blit_paint src x y sw sh t x' y' of
             None \<Rightarrow> fb ! nat (y' * s_gfx_width s + x') | Some c \<Rightarrow> c)"
    by auto
  show ?thesis
  proof (rule paintedI[OF fb _ fb'(2)])
    show "r = Inr (s\<lparr>s_graphics_framebuffer := Some fb'\<rparr>)"
      using l False fb'(1) by (simp add: with_fb_def)
  qed (rule fb'(3))
qed

lemma rgb_gfx_blit_painted:
  assumes ok: "fb_ok s" and cx: "c_int x" "c_int sw" and cy: "c_int y" "c_int sh"
  shows "painted s (rgb_gfx_blit s (Some mem) x y sw sh src_stride t)
           (blit_paint (blit_source mem src_stride) x y sw sh t)"
proof -
  from ok obtain fb where fb: "s_graphics_framebuffer s = Some fb" by (rule fb_okE)
  show ?thesis
  proof (rule blit_painted_aux[OF ok cx cy fb])
    assume "sw \<le> 0 \<or> sh \<le> 0"
    then show "rgb_gfx_blit s (Some mem) x y sw sh src_stride t = Inr s"
      using fb by (auto simp add: rgb_gfx_blit_def getter_defs Let_def)
  next
    assume "0 < sw" "0 < sh"
    then show "rgb_gfx_blit s (Some mem) x y sw sh src_stride t =
        with_fb s (for_loop_f 0 sh
           (\<lambda>sy fb. if wrap32 (y + sy) < 0 \<or> wrap32 (y + sy) \<ge> s_gfx_height s then Inr fb
                     else for_loop_f 0 sw
                            (\<lambda>sx fb. blit_pixel (s_gfx_width s) x
                                        (wrap32 (wrap32 (y + sy) * s_gfx_width s)) t sx
                                        (blit_source mem src_stride sx sy) fb) fb)
           fb)"
      using fb unfolding rgb_gfx_blit_def getter_defs Let_def blit_source_def by simp
  qed
qed


lemma wrap32_flip_index:
  assumes "c_int n" "0 \<le> k" "k < n"
  shows "wrap32 (wrap32 (n - 1) - k) = n - 1 - k"
  using assms by (simp add: wrap32_id c_int_def)

lemma rgb_gfx_blit_flip_painted:
  assumes ok: "fb_ok s" and cx: "c_int x" "c_int sw" and cy: "c_int y" "c_int sh"
  shows "painted s (rgb_gfx_blit_flip s (Some mem) x y sw sh src_stride t flip_x flip_y)
           (blit_paint (blit_flip_source mem src_stride sw sh flip_x flip_y) x y sw sh t)"
proof -
  from ok obtain fb where fb: "s_graphics_framebuffer s = Some fb" by (rule fb_okE)
  define src where "src = (\<lambda>sx sy.
      mem (wrap32 ((if flip_y then wrap32 (wrap32 (sh - 1) - sy) else sy) * src_stride)
           + (if flip_x then wrap32 (wrap32 (sw - 1) - sx) else sx)))"
  have "painted s (rgb_gfx_blit_flip s (Some mem) x y sw sh src_stride t flip_x flip_y)
          (blit_paint src x y sw sh t)"
  proof (rule blit_painted_aux[OF ok cx cy fb])
    assume "sw \<le> 0 \<or> sh \<le> 0"
    then show "rgb_gfx_blit_flip s (Some mem) x y sw sh src_stride t flip_x flip_y = Inr s"
      using fb by (auto simp add: rgb_gfx_blit_flip_def getter_defs Let_def)
  next
    assume "0 < sw" "0 < sh"
    then show "rgb_gfx_blit_flip s (Some mem) x y sw sh src_stride t flip_x flip_y =
        with_fb s (for_loop_f 0 sh
           (\<lambda>sy fb. if wrap32 (y + sy) < 0 \<or> wrap32 (y + sy) \<ge> s_gfx_height s then Inr fb
                     else for_loop_f 0 sw
                            (\<lambda>sx fb. blit_pixel (s_gfx_width s) x
                                        (wrap32 (wrap32 (y + sy) * s_gfx_width s)) t sx
                                        (src sx sy) fb) fb)
           fb)"
      using fb unfolding rgb_gfx_blit_flip_def getter_defs Let_def src_def by simp
  qed
  then show ?thesis
  proof (rule painted_cong)
    fix x' y' :: int
    show "blit_paint src x y sw sh t x' y' =
          blit_paint (blit_flip_source mem src_stride sw sh flip_x flip_y) x y sw sh t x' y'"
    proof (cases "x \<le> x' \<and> x' < x + sw \<and> y \<le> y' \<and> y' < y + sh")
      case False
      then show ?thesis by (auto simp add: blit_paint_def)
    next
      case True
      then have "wrap32 (wrap32 (sw - 1) - (x' - x)) = sw - 1 - (x' - x)"
        "wrap32 (wrap32 (sh - 1) - (y' - y)) = sh - 1 - (y' - y)"
        using cx cy by (simp_all add: wrap32_flip_index)
      then have "src (x' - x) (y' - y) =
                 blit_flip_source mem src_stride sw sh flip_x flip_y (x' - x) (y' - y)"
        by (simp add: src_def blit_flip_source_def)
      then show ?thesis by (simp add: blit_paint_def)
    qed
  qed
qed


text \<open>Nothing to draw on: no framebuffer, or a dimension that is zero.\<close>

lemma for_loop_f_const:
  assumes "\<And>k. i \<le> k \<Longrightarrow> k < n \<Longrightarrow> body k s = Inr s"
  shows "for_loop_f i n body s = Inr s"
proof (cases "i \<le> n")
  case False
  then show ?thesis by (simp add: for_loop_f_empty)
next
  case True
  have "\<exists>t. for_loop_f i n body s = Inr t \<and> t = s"
    using True by (rule for_loop_f_rule) (simp_all add: assms)
  then show ?thesis by simp
qed

lemma with_fb_same: "s_graphics_framebuffer s = Some fb \<Longrightarrow> with_fb s (Inr fb) = Inr s"
  by (simp add: with_fb_def)

lemma gfx_idle_clear: "gfx_idle s \<Longrightarrow> rgb_gfx_clear s color = Inr s"
  by (auto simp add: gfx_idle_def rgb_gfx_clear_def getter_defs Let_def split: option.splits)

lemma gfx_idle_pixel: "gfx_idle s \<Longrightarrow> rgb_gfx_pixel s x y color = Inr s"
  by (auto simp add: gfx_idle_def rgb_gfx_pixel_def getter_defs Let_def split: option.splits)

lemma gfx_idle_hline:
  assumes "gfx_idle s" "c_int x" "c_int len" "x + len \<le> 2147483647"
  shows "rgb_gfx_hline s x y len color = Inr s"
proof (cases "s_graphics_framebuffer s")
  case None
  then show ?thesis by (simp add: rgb_gfx_hline_def getter_defs Let_def)
next
  case (Some fb)
  show ?thesis
  proof (cases "y < 0 \<or> y \<ge> s_gfx_height s \<or> len \<le> 0")
    case True
    then show ?thesis using Some by (auto simp add: rgb_gfx_hline_def getter_defs Let_def)
  next
    case False
    then have w: "s_gfx_width s = 0" and l: "0 < len"
      using assms(1) Some by (auto simp add: gfx_idle_def)
    have "x < 0 \<Longrightarrow> wrap32 (len + x) = len + x" "wrap32 (x + len) = x + len"
      "0 \<le> x \<Longrightarrow> wrap32 (- x) = - x" "wrap32 0 = 0"
      using assms l by (simp_all add: wrap32_id c_int_def)
    then show ?thesis
      using Some False w l by (auto simp add: rgb_gfx_hline_def getter_defs Let_def)
  qed
qed

lemma gfx_idle_vline:
  assumes "gfx_idle s" "c_int y" "c_int len" "y + len \<le> 2147483647"
  shows "rgb_gfx_vline s x y len color = Inr s"
proof (cases "s_graphics_framebuffer s")
  case None
  then show ?thesis by (simp add: rgb_gfx_vline_def getter_defs Let_def)
next
  case (Some fb)
  show ?thesis
  proof (cases "x < 0 \<or> x \<ge> s_gfx_width s \<or> len \<le> 0")
    case True
    then show ?thesis using Some by (auto simp add: rgb_gfx_vline_def getter_defs Let_def)
  next
    case False
    then have h: "s_gfx_height s = 0" and l: "0 < len"
      using assms(1) Some by (auto simp add: gfx_idle_def)
    have "y < 0 \<Longrightarrow> wrap32 (len + y) = len + y" "wrap32 (y + len) = y + len"
      "0 \<le> y \<Longrightarrow> wrap32 (- y) = - y" "wrap32 0 = 0"
      using assms l by (simp_all add: wrap32_id c_int_def)
    then show ?thesis
      using Some False h l by (auto simp add: rgb_gfx_vline_def getter_defs Let_def)
  qed
qed


lemma gfx_idle_rect:
  assumes "gfx_idle s" "c_int x" "c_int rw" "x + rw \<le> 2147483647"
    "c_int y" "c_int rh" "y + rh \<le> 2147483647"
  shows "rgb_gfx_rect s x y rw rh color = Inr s"
proof (cases "rw \<le> 0 \<or> rh \<le> 0")
  case True
  then show ?thesis by (simp add: rgb_gfx_rect_def)
next
  case False
  then have c: "c_int (wrap32 (y + 1))" "c_int (wrap32 (rh - 2))"
    "wrap32 (y + 1) + wrap32 (rh - 2) \<le> 2147483647"
    using assms by (simp_all add: wrap32_id c_int_def)
  show ?thesis
    using False assms
    by (simp add: rgb_gfx_rect_def bind_f_def gfx_idle_hline gfx_idle_vline[OF assms(1) c])
qed

lemma gfx_idle_rectfill:
  assumes "gfx_idle s" "c_int x" "c_int rw" "x + rw \<le> 2147483647"
    "c_int y" "c_int rh" "y + rh \<le> 2147483647"
  shows "rgb_gfx_rectfill s x y rw rh color = Inr s"
proof (cases "s_graphics_framebuffer s")
  case None
  then show ?thesis by (simp add: rgb_gfx_rectfill_def getter_defs Let_def)
next
  case (Some fb)
  show ?thesis
  proof (cases "rw \<le> 0 \<or> rh \<le> 0")
    case True
    then show ?thesis using Some by (auto simp add: rgb_gfx_rectfill_def getter_defs Let_def)
  next
    case False
    then have pos: "0 < rw" "0 < rh" by auto
    have sx: "wrap32 (x + rw) = x + rw" "wrap32 (y + rh) = y + rh"
      using assms pos by (simp_all add: wrap32_id c_int_def)
    from assms(1) Some have "s_gfx_width s = 0 \<or> s_gfx_height s = 0"
      by (simp add: gfx_idle_def)
    then show ?thesis
    proof
      assume w: "s_gfx_width s = 0"
      have "wrap32 ((if x + rw > 0 then 0 else x + rw) - (if x < 0 then 0 else x)) \<le> 0"
        using assms pos by (auto simp add: wrap32_id c_int_def)
      then show ?thesis
        using Some False w sx by (simp add: rgb_gfx_rectfill_def getter_defs Let_def)
    next
      assume h: "s_gfx_height s = 0"
      have "wrap32 ((if y + rh > 0 then 0 else y + rh) - (if y < 0 then 0 else y)) \<le> 0"
        using assms pos by (auto simp add: wrap32_id c_int_def)
      then show ?thesis
        using Some False h sx by (simp add: rgb_gfx_rectfill_def getter_defs Let_def)
    qed
  qed
qed

lemma blit_pixel_idle:
  assumes "c_int x" "0 \<le> k" "c_int k"
  shows "blit_pixel 0 x dst_row t k p fb = Inr fb"
  using wrap32_add_in_range(1)[OF assms, of 0] by (auto simp add: blit_pixel_def Let_def c_int_def)

lemma blit_loops_idle:
  assumes idle: "w = 0 \<or> h = 0" and cx: "c_int x" "c_int sw" and cy: "c_int y" "c_int sh"
  shows "for_loop_f 0 sh
           (\<lambda>sy fb. if wrap32 (y + sy) < 0 \<or> wrap32 (y + sy) \<ge> h then Inr fb
                     else for_loop_f 0 sw
                            (\<lambda>sx fb. blit_pixel w x (dst sy) t sx (src sx sy) fb) fb)
           fb = Inr fb"
proof (rule for_loop_f_const)
  fix r :: int
  assume r: "0 \<le> r" "r < sh"
  then have cr: "c_int r" using cy by (simp add: c_int_def)
  show "(if wrap32 (y + r) < 0 \<or> wrap32 (y + r) \<ge> h then Inr fb
         else for_loop_f 0 sw (\<lambda>sx fb. blit_pixel w x (dst r) t sx (src sx r) fb) fb) = Inr fb"
  proof (cases "h = 0")
    case True
    then show ?thesis by auto
  next
    case False
    then have w: "w = 0" using idle by simp
    have "for_loop_f 0 sw (\<lambda>sx fb. blit_pixel w x (dst r) t sx (src sx r) fb) fb = Inr fb"
    proof (rule for_loop_f_const)
      fix k :: int
      assume k: "0 \<le> k" "k < sw"
      then have "c_int k" using cx by (simp add: c_int_def)
      then show "blit_pixel w x (dst r) t k (src k r) fb = Inr fb"
        unfolding w using cx(1) k(1) by (intro blit_pixel_idle)
    qed
    then show ?thesis by simp
  qed
qed

lemma gfx_idle_blit:
  assumes "gfx_idle s" "c_int x" "c_int sw" "c_int y" "c_int sh"
  shows "rgb_gfx_blit s data x y sw sh src_stride t = Inr s"
proof (cases "s_graphics_framebuffer s")
  case None
  then show ?thesis by (simp add: rgb_gfx_blit_def getter_defs Let_def)
next
  case (Some fb)
  then have idle: "s_gfx_width s = 0 \<or> s_gfx_height s = 0"
    using assms(1) by (simp add: gfx_idle_def)
  show ?thesis
  proof (cases data)
    case None
    then show ?thesis using Some by (simp add: rgb_gfx_blit_def getter_defs Let_def)
  next
    case (Some mem)
    show ?thesis
      using \<open>s_graphics_framebuffer s = Some fb\<close> Some
        blit_loops_idle[OF idle assms(2-5)]
      unfolding rgb_gfx_blit_def getter_defs Let_def
      by (simp add: with_fb_def)
  qed
qed

lemma gfx_idle_blit_flip:
  assumes "gfx_idle s" "c_int x" "c_int sw" "c_int y" "c_int sh"
  shows "rgb_gfx_blit_flip s data x y sw sh src_stride t flip_x flip_y = Inr s"
proof (cases "s_graphics_framebuffer s")
  case None
  then show ?thesis by (simp add: rgb_gfx_blit_flip_def getter_defs Let_def)
next
  case (Some fb)
  then have idle: "s_gfx_width s = 0 \<or> s_gfx_height s = 0"
    using assms(1) by (simp add: gfx_idle_def)
  show ?thesis
  proof (cases data)
    case None
    then show ?thesis using Some by (simp add: rgb_gfx_blit_flip_def getter_defs Let_def)
  next
    case (Some mem)
    show ?thesis
      using \<open>s_graphics_framebuffer s = Some fb\<close> Some
        blit_loops_idle[OF idle assms(2-5)]
      unfolding rgb_gfx_blit_flip_def getter_defs Let_def
      by (simp add: with_fb_def)
  qed
qed


text \<open>The framebuffer of every reachable state has the shape of its dimensions.\<close>

lemma fb_shape_inv_static: "fb_shape_inv static_state"
  by (simp add: fb_shape_inv_def static_state_def)

lemma fb_shape_inv_set_mode:
  "fb_shape_inv s \<Longrightarrow> fb_shape_inv (snd (rgb_display_set_mode hp s m))"
  by (auto simp add: fb_shape_inv_def set_mode_defs mode_consts gfx_consts Let_def
      split: if_splits option.splits)

lemma fb_shape_inv_apply_op: "fb_shape_inv s \<Longrightarrow> fb_shape_inv (apply_op s opn)"
proof (cases opn)
  case (Op_set_mode hp m)
  assume "fb_shape_inv s"
  then show ?thesis
    using Op_set_mode by (simp add: fb_shape_inv_set_mode)
next
  case (Op_set_vga_palette_entry i c)
  assume "fb_shape_inv s"
  then show ?thesis
    using Op_set_vga_palette_entry
    by (simp add: fb_shape_inv_def rgb_display_set_vga_palette_entry_def split: option.splits)
qed (simp_all add: fb_shape_inv_def rgb_display_init_def rebuild_attr_lut_def
       rgb_display_set_buffer_def rgb_display_set_callbacks_def rgb_display_set_cursor_def
       rgb_display_refresh_palette_def rgb_display_set_vga_palette_def Let_def
       split: option.splits)

lemma fb_shape_inv_run_ops: "fb_shape_inv (run_ops ops)"
proof -
  have "fb_shape_inv s \<Longrightarrow> fb_shape_inv (foldl apply_op s ops)" for s
    by (induction ops arbitrary: s) (simp_all add: fb_shape_inv_apply_op)
  then show ?thesis
    unfolding run_ops_def using fb_shape_inv_static by blast
qed

lemma fb_shape_inv_fb_ok:
  "fb_shape_inv s \<Longrightarrow> s_graphics_framebuffer s \<noteq> None \<Longrightarrow> fb_ok s"
  by (auto simp add: fb_shape_inv_def fb_ok_def gfx_consts c_int_def)

lemma painted_fb_shape:
  "fb_shape_inv s \<Longrightarrow> painted s (Inr s') f \<Longrightarrow> fb_shape_inv s'"
  by (auto simp add: fb_shape_inv_def painted_def)


lemma scene_150p_fb_ok: "fb_ok scene_150p"
  using scene_150p_fields by (simp add: fb_ok_def gfx_consts c_int_def)

text \<open>
  The primitives where the sums \<open>x + a\<close> and \<open>y + b\<close> are C \<open>int\<close>s.  On a framebuffer of width
  times height bytes with positive dimensions every primitive returns normally, writes only
  bytes of pixels inside \<open>[0, width) \<times> [0, height)\<close> that lie in the figure asked for, and leaves
  every other byte of the framebuffer as it was: \<open>rgb_gfx_clear\<close> paints the screen,
  \<open>rgb_gfx_pixel\<close> the pixel, \<open>rgb_gfx_hline\<close> and \<open>rgb_gfx_vline\<close> the part of the segment on
  the screen, \<open>rgb_gfx_rect\<close> the part of the outline, \<open>rgb_gfx_rectfill\<close> the part of the
  rectangle, the two blits the non-transparent sprite pixels that fall on the screen.  When the
  framebuffer is null or a dimension is zero every primitive returns with the state unchanged.
  On a 256x150 framebuffer \<open>rgb_gfx_rectfill (-5, -5, 20, 20, C)\<close> paints exactly
  \<open>[0,15) \<times> [0,15)\<close>, and on width 256 \<open>rgb_gfx_hline (250, 0, 20, C)\<close> paints exactly the columns
  \<open>[250,256)\<close> of row 0.
\<close>

theorem gfx_primitives_clip:
  assumes ok: "fb_ok s"
    and cx: "c_int x" "c_int a" "x + a \<le> 2147483647"
    and cy: "c_int y" "c_int b" "y + b \<le> 2147483647"
  shows "painted s (rgb_gfx_clear s color) (\<lambda>x' y'. Some color)
    \<and> painted s (rgb_gfx_pixel s x y color)
         (\<lambda>x' y'. if x' = x \<and> y' = y then Some color else None)
    \<and> painted s (rgb_gfx_hline s x y a color)
         (\<lambda>x' y'. if y' = y \<and> x \<le> x' \<and> x' < x + a then Some color else None)
    \<and> painted s (rgb_gfx_vline s x y b color)
         (\<lambda>x' y'. if x' = x \<and> y \<le> y' \<and> y' < y + b then Some color else None)
    \<and> painted s (rgb_gfx_rect s x y a b color)
         (\<lambda>x' y'. if x \<le> x' \<and> x' < x + a \<and> y \<le> y' \<and> y' < y + b
                     \<and> (x' = x \<or> x' = x + a - 1 \<or> y' = y \<or> y' = y + b - 1)
                  then Some color else None)
    \<and> painted s (rgb_gfx_rectfill s x y a b color)
         (\<lambda>x' y'. if x \<le> x' \<and> x' < x + a \<and> y \<le> y' \<and> y' < y + b then Some color else None)
    \<and> painted s (rgb_gfx_blit s (Some mem) x y a b src_stride t)
         (blit_paint (blit_source mem src_stride) x y a b t)
    \<and> painted s (rgb_gfx_blit_flip s (Some mem) x y a b src_stride t flip_x flip_y)
         (blit_paint (blit_flip_source mem src_stride a b flip_x flip_y) x y a b t)
    \<and> (\<forall>s0. gfx_idle s0 \<longrightarrow>
          rgb_gfx_clear s0 color = Inr s0
          \<and> rgb_gfx_pixel s0 x y color = Inr s0
          \<and> rgb_gfx_hline s0 x y a color = Inr s0
          \<and> rgb_gfx_vline s0 x y b color = Inr s0
          \<and> rgb_gfx_rect s0 x y a b color = Inr s0
          \<and> rgb_gfx_rectfill s0 x y a b color = Inr s0
          \<and> rgb_gfx_blit s0 data x y a b src_stride t = Inr s0
          \<and> rgb_gfx_blit_flip s0 data x y a b src_stride t flip_x flip_y = Inr s0)
    \<and> (s_gfx_width s = 256 \<and> s_gfx_height s = 150 \<longrightarrow>
          painted s (rgb_gfx_rectfill s (- 5) (- 5) 20 20 color)
            (\<lambda>x' y'. if 0 \<le> x' \<and> x' < 15 \<and> 0 \<le> y' \<and> y' < 15 then Some color else None))
    \<and> (s_gfx_width s = 256 \<longrightarrow>
          painted s (rgb_gfx_hline s 250 0 20 color)
            (\<lambda>x' y'. if y' = 0 \<and> 250 \<le> x' \<and> x' < 256 then Some color else None))"
proof -
  have idle: "\<forall>s0. gfx_idle s0 \<longrightarrow>
          rgb_gfx_clear s0 color = Inr s0
          \<and> rgb_gfx_pixel s0 x y color = Inr s0
          \<and> rgb_gfx_hline s0 x y a color = Inr s0
          \<and> rgb_gfx_vline s0 x y b color = Inr s0
          \<and> rgb_gfx_rect s0 x y a b color = Inr s0
          \<and> rgb_gfx_rectfill s0 x y a b color = Inr s0
          \<and> rgb_gfx_blit s0 data x y a b src_stride t = Inr s0
          \<and> rgb_gfx_blit_flip s0 data x y a b src_stride t flip_x flip_y = Inr s0"
    using cx cy
    by (simp add: gfx_idle_clear gfx_idle_pixel gfx_idle_hline gfx_idle_vline gfx_idle_rect
        gfx_idle_rectfill gfx_idle_blit gfx_idle_blit_flip)
  have c5: "c_int (- 5)" "c_int 20" "c_int 250" "(- 5::int) + 20 \<le> 2147483647"
    "(250::int) + 20 \<le> 2147483647"
    by (simp_all add: c_int_def)
  have ex1: "painted s (rgb_gfx_rectfill s (- 5) (- 5) 20 20 color)
            (\<lambda>x' y'. if 0 \<le> x' \<and> x' < 15 \<and> 0 \<le> y' \<and> y' < 15 then Some color else None)"
    if "s_gfx_width s = 256 \<and> s_gfx_height s = 150"
    using rgb_gfx_rectfill_painted[OF ok c5(1,2,4) c5(1,2,4), of color]
    by (rule painted_cong) auto
  have ex2: "painted s (rgb_gfx_hline s 250 0 20 color)
            (\<lambda>x' y'. if y' = 0 \<and> 250 \<le> x' \<and> x' < 256 then Some color else None)"
    if "s_gfx_width s = 256"
    using rgb_gfx_hline_painted[OF ok c5(3,2,5), of 0 color]
    by (rule painted_cong) (use that in auto)
  show ?thesis
    using rgb_gfx_clear_painted[OF ok] rgb_gfx_pixel_painted[OF ok]
      rgb_gfx_hline_painted[OF ok cx] rgb_gfx_vline_painted[OF ok cy]
      rgb_gfx_rect_painted[OF ok cx cy] rgb_gfx_rectfill_painted[OF ok cx cy]
      rgb_gfx_blit_painted[OF ok cx(1,2) cy(1,2)]
      rgb_gfx_blit_flip_painted[OF ok cx(1,2) cy(1,2)] idle ex1 ex2
    by blast
qed

text \<open>
  The theorem at the scene built with the public calls (a 256x150 framebuffer) and at the
  initial state (no framebuffer).
\<close>

theorem gfx_primitives_clip_witness:
  "fb_ok scene_150p \<and> s_gfx_width scene_150p = 256 \<and> s_gfx_height scene_150p = 150
   \<and> c_int 250 \<and> c_int 20 \<and> (250::int) + 20 \<le> 2147483647
   \<and> c_int 0 \<and> c_int 1 \<and> (0::int) + 1 \<le> 2147483647
   \<and> gfx_idle static_state
   \<and> painted scene_150p (rgb_gfx_hline scene_150p 250 0 20 9)
        (\<lambda>x' y'. if y' = 0 \<and> 250 \<le> x' \<and> x' < 256 then Some 9 else None)
   \<and> painted scene_150p (rgb_gfx_rectfill scene_150p (- 5) (- 5) 20 20 9)
        (\<lambda>x' y'. if 0 \<le> x' \<and> x' < 15 \<and> 0 \<le> y' \<and> y' < 15 then Some 9 else None)
   \<and> rgb_gfx_hline static_state 250 0 20 9 = Inr static_state"
proof -
  have d: "s_gfx_width scene_150p = 256" "s_gfx_height scene_150p = 150"
    using scene_150p_fields by (simp_all add: gfx_consts)
  have c: "c_int 250" "c_int 20" "(250::int) + 20 \<le> 2147483647"
    "c_int 0" "c_int 1" "(0::int) + 1 \<le> 2147483647"
    by (simp_all add: c_int_def)
  have i: "gfx_idle static_state"
    by (simp add: gfx_idle_def static_state_def)
  from gfx_primitives_clip [OF scene_150p_fb_ok c, of 9] d i
  have "painted scene_150p (rgb_gfx_hline scene_150p 250 0 20 9)
        (\<lambda>x' y'. if y' = 0 \<and> 250 \<le> x' \<and> x' < 256 then Some 9 else None)"
    "painted scene_150p (rgb_gfx_rectfill scene_150p (- 5) (- 5) 20 20 9)
        (\<lambda>x' y'. if 0 \<le> x' \<and> x' < 15 \<and> 0 \<le> y' \<and> y' < 15 then Some 9 else None)"
    "rgb_gfx_hline static_state 250 0 20 9 = Inr static_state"
    by blast+
  with scene_150p_fb_ok d c i show ?thesis
    by simp
qed

text \<open>
  Claim C8, at a failing input.  On the 256x150 scene, built with the public calls,
  \<open>rgb_gfx_hline (2147483647, 0, 1, 9)\<close> writes outside the framebuffer: the sum \<open>x + len\<close> is
  not a C \<open>int\<close> and wraps to a negative value, the test \<open>x + len > w\<close> of the step commented
  \<open>Clip to screen bounds\<close> does not clip, and the \<open>memset\<close> is at offset 2147483647, outside
  the 38400 bytes.  \<open>rgb_gfx_vline (0, 2147483647, 1, 9)\<close> and
  \<open>rgb_gfx_rectfill (2147483647, 0, 1, 1, 9)\<close> miss their clip tests through \<open>y + len\<close> and
  \<open>x + rw\<close> in the same way, and \<open>rgb_gfx_rect (2147483647, 0, 1, 1, 9)\<close> through its first
  \<open>rgb_gfx_hline\<close>.
\<close>

theorem clip_overflow_writes_outside:
  "fb_ok scene_150p
   \<and> rgb_display_get_fb_width scene_150p = 256 \<and> rgb_display_get_fb_height scene_150p = 150
   \<and> c_int 2147483647 \<and> c_int 0 \<and> c_int 1
   \<and> rgb_gfx_hline scene_150p 2147483647 0 1 9 = Inl OutOfBounds
   \<and> rgb_gfx_vline scene_150p 0 2147483647 1 9 = Inl OutOfBounds
   \<and> rgb_gfx_rectfill scene_150p 2147483647 0 1 1 9 = Inl OutOfBounds
   \<and> rgb_gfx_rect scene_150p 2147483647 0 1 1 9 = Inl OutOfBounds"
proof -
  have h: "rgb_gfx_hline scene_150p 2147483647 0 1 9 = Inl OutOfBounds"
    using scene_150p_fields
    by (simp add: rgb_gfx_hline_def getter_defs Let_def gfx_consts wrap32_def
        memset8_def with_fb_def)
  have v: "rgb_gfx_vline scene_150p 0 2147483647 1 9 = Inl OutOfBounds"
    using scene_150p_fields
    by (simp add: rgb_gfx_vline_def getter_defs Let_def gfx_consts wrap32_def
        store8_def with_fb_def for_loop_f.simps[of 0 1])
  have f: "rgb_gfx_rectfill scene_150p 2147483647 0 1 1 9 = Inl OutOfBounds"
    using scene_150p_fields
    by (simp add: rgb_gfx_rectfill_def getter_defs Let_def gfx_consts wrap32_def
        memset8_def with_fb_def for_loop_f.simps[of 0 1])
  have r: "rgb_gfx_rect scene_150p 2147483647 0 1 1 9 = Inl OutOfBounds"
    by (simp add: rgb_gfx_rect_def h bind_f_def)
  have d: "rgb_display_get_fb_width scene_150p = 256" "rgb_display_get_fb_height scene_150p = 150"
    using scene_150p_fields by (simp_all add: getter_defs gfx_consts)
  have c: "c_int 2147483647" "c_int 0" "c_int 1"
    by (simp_all add: c_int_def)
  from scene_150p_fb_ok d c h v f r show ?thesis by (intro conjI)
qed

text \<open>
  Claim C10.  For every non-negative \<open>transparent_color\<close> argument \<open>t\<close>, \<open>rgb_gfx_blit\<close> and
  \<open>rgb_gfx_blit_flip\<close> copy to the screen exactly the source pixels that fall on the screen and
  whose byte differs from \<open>t mod 256\<close>, and leave the screen as it was at every pixel whose
  byte equals \<open>t mod 256\<close>.  For \<open>t \<ge> 256\<close> no byte equals \<open>t\<close> itself, yet a pixel equal to
  \<open>t - 256\<close> is equal to \<open>t mod 256\<close> and so is skipped.
\<close>

theorem blit_transparent_modulo_256:
  assumes ok: "fb_ok s" and c: "c_int x" "c_int y" "c_int sw" "c_int sh" and t: "0 \<le> t"
  shows "painted s (rgb_gfx_blit s (Some mem) x y sw sh src_stride t)
           (\<lambda>x' y'. if x \<le> x' \<and> x' < x + sw \<and> y \<le> y' \<and> y' < y + sh
                       \<and> uint (blit_source mem src_stride (x' - x) (y' - y)) \<noteq> t mod 256
                    then Some (blit_source mem src_stride (x' - x) (y' - y)) else None)
    \<and> painted s (rgb_gfx_blit_flip s (Some mem) x y sw sh src_stride t flip_x flip_y)
           (\<lambda>x' y'. if x \<le> x' \<and> x' < x + sw \<and> y \<le> y' \<and> y' < y + sh
                       \<and> uint (blit_flip_source mem src_stride sw sh flip_x flip_y (x' - x) (y' - y))
                           \<noteq> t mod 256
                    then Some (blit_flip_source mem src_stride sw sh flip_x flip_y (x' - x) (y' - y))
                    else None)
    \<and> (256 \<le> t \<longrightarrow> (\<forall>p :: u8. uint p \<noteq> t)
                     \<and> (\<forall>p :: u8. uint p = t - 256 \<longrightarrow> uint p = t mod 256))"
proof -
  have 1: "painted s (rgb_gfx_blit s (Some mem) x y sw sh src_stride t)
           (\<lambda>x' y'. if x \<le> x' \<and> x' < x + sw \<and> y \<le> y' \<and> y' < y + sh
                       \<and> uint (blit_source mem src_stride (x' - x) (y' - y)) \<noteq> t mod 256
                    then Some (blit_source mem src_stride (x' - x) (y' - y)) else None)"
    by (rule painted_cong[OF rgb_gfx_blit_painted[OF ok c(1,3,2,4), of mem src_stride t]])
       (use t in \<open>auto simp add: blit_paint_def\<close>)
  have 2: "painted s (rgb_gfx_blit_flip s (Some mem) x y sw sh src_stride t flip_x flip_y)
           (\<lambda>x' y'. if x \<le> x' \<and> x' < x + sw \<and> y \<le> y' \<and> y' < y + sh
                       \<and> uint (blit_flip_source mem src_stride sw sh flip_x flip_y (x' - x) (y' - y))
                           \<noteq> t mod 256
                    then Some (blit_flip_source mem src_stride sw sh flip_x flip_y (x' - x) (y' - y))
                    else None)"
    by (rule painted_cong[OF rgb_gfx_blit_flip_painted[OF ok c(1,3,2,4),
            of mem src_stride t flip_x flip_y]])
       (use t in \<open>auto simp add: blit_paint_def\<close>)
  have 3: "uint p \<noteq> t" if "256 \<le> t" for p :: u8
    using that uint_bounded[of p] by simp
  have 4: "uint p = t mod 256" if "256 \<le> t" "uint p = t - 256" for p :: u8
  proof -
    have "uint p mod 256 = uint p"
      using uint_bounded[of p] by (intro mod_pos_pos_trivial) simp_all
    moreover have "(t - 256) mod 256 = t mod 256"
      using mod_diff_right_eq[of t 256 256] by simp
    ultimately show ?thesis using that(2) by simp
  qed
  from 1 2 3 4 show ?thesis by blast
qed

text \<open>
  The theorem at \<open>t = 263\<close> on the 256x150 scene: a sprite of bytes 7 paints nothing, a sprite
  of bytes 8 is copied.
\<close>

theorem blit_transparent_modulo_256_witness:
  "fb_ok scene_150p \<and> c_int 0 \<and> c_int 2 \<and> c_int 1 \<and> (0::int) \<le> 263 \<and> (256::int) \<le> 263
   \<and> painted scene_150p (rgb_gfx_blit scene_150p (Some (\<lambda>i. 7)) 0 0 2 1 2 263) (\<lambda>x' y'. None)
   \<and> painted scene_150p (rgb_gfx_blit scene_150p (Some (\<lambda>i. 8)) 0 0 2 1 2 263)
        (\<lambda>x' y'. if 0 \<le> x' \<and> x' < 2 \<and> 0 \<le> y' \<and> y' < 1 then Some 8 else None)
   \<and> painted scene_150p
        (rgb_gfx_blit_flip scene_150p (Some (\<lambda>i. 7)) 0 0 2 1 2 263 True False) (\<lambda>x' y'. None)
   \<and> uint (7 :: u8) = 263 - 256 \<and> uint (7 :: u8) = 263 mod 256"
proof -
  have c: "c_int 0" "c_int 0" "c_int 2" "c_int 1" "(0::int) \<le> 263"
    by (simp_all add: c_int_def)
  note th = blit_transparent_modulo_256 [OF scene_150p_fb_ok c]
  have a: "painted scene_150p (rgb_gfx_blit scene_150p (Some (\<lambda>i. 7)) 0 0 2 1 2 263)
            (\<lambda>x' y'. None)"
    using th[where mem = "\<lambda>i. 7" and src_stride = 2 and flip_x = True and flip_y = False]
    unfolding blit_source_def by simp
  have b: "painted scene_150p (rgb_gfx_blit scene_150p (Some (\<lambda>i. 8)) 0 0 2 1 2 263)
        (\<lambda>x' y'. if 0 \<le> x' \<and> x' < 2 \<and> 0 \<le> y' \<and> y' < 1 then Some 8 else None)"
    using th[where mem = "\<lambda>i. 8" and src_stride = 2 and flip_x = True and flip_y = False]
    unfolding blit_source_def by simp
  have f: "painted scene_150p
        (rgb_gfx_blit_flip scene_150p (Some (\<lambda>i. 7)) 0 0 2 1 2 263 True False) (\<lambda>x' y'. None)"
    using th[where mem = "\<lambda>i. 7" and src_stride = 2 and flip_x = True and flip_y = False]
    unfolding blit_flip_source_def by simp
  from a b f scene_150p_fb_ok c show ?thesis
    by simp
qed

end
